theory Spec2Isabelle
  imports Complex_Main "HOL-Library.AList" "HOL-Library.Char_ord" "HOL-Library.List_Lexorder"
begin

section \<open>Python values and exceptions\<close>

text \<open>
  The exceptions that the modelled code can meet. A function that may raise returns
  \<open>py_error + 'a\<close>, with \<open>Inl\<close> for the exception.
\<close>

datatype py_error =
    KeyError | TypeError | IndexError | ValueError | OverflowError
  | ZeroDivisionError | OSError

text \<open>
  What \<open>json.load\<close> hands back: a JSON document as Python objects. Numbers are the
  integers (fractions and exponents are left out of the model). A \<open>JDict\<close> holds the
  items of the dict in insertion order.
\<close>

datatype json =
    JNull | JBool bool | JNum int | JStr string
  | JList "json list" | JDict "(string \<times> json) list"

text \<open>\<open>obj[key]\<close> with a string key: only a dict supports it, and the key must be there.\<close>

fun getitem :: "json \<Rightarrow> string \<Rightarrow> py_error + json" where
  "getitem (JDict kvs) key = (case map_of kvs key of None \<Rightarrow> Inl KeyError | Some v \<Rightarrow> Inr v)"
| "getitem _ key = Inl TypeError"

text \<open>
  \<open>for x in obj\<close>: a list yields its elements, a dict its keys, a string its characters;
  nothing else can be iterated.
\<close>

fun py_iter :: "json \<Rightarrow> py_error + json list" where
  "py_iter (JList xs) = Inr xs"
| "py_iter (JDict kvs) = Inr (map (\<lambda>kv. JStr (fst kv)) kvs)"
| "py_iter (JStr s) = Inr (map (\<lambda>c. JStr [c]) s)"
| "py_iter _ = Inl TypeError"

text \<open>
  Using a value as a dict key hashes it: lists and dicts are unhashable. Equal keys are
  one key, and \<open>True == 1\<close>, \<open>False == 0\<close> in Python, so a bool stands for its number.
\<close>

fun py_key :: "json \<Rightarrow> py_error + json" where
  "py_key (JList xs) = Inl TypeError"
| "py_key (JDict kvs) = Inl TypeError"
| "py_key (JBool b) = Inr (JNum (if b then 1 else 0))"
| "py_key v = Inr v"

section \<open>The identifier extractor (src/dataETL/extractors.py)\<close>

record track_record =
  track_uri :: json
  track_name :: json
  artist_name :: json
  artist_uri :: json
  album_name :: json
  album_uri :: json
  duration_ms :: json

text \<open>
  The state of the scan: \<open>unique_tracks\<close> and the \<open>Counter\<close> \<open>track_frequency\<close> as
  insertion-ordered dicts, and the running total.
\<close>

record extract_state =
  unique_tracks :: "(json \<times> track_record) list"
  track_frequency :: "(json \<times> nat) list"
  total_tracks_processed :: nat

definition initial_state :: extract_state where
  "initial_state = \<lparr>unique_tracks = [], track_frequency = [], total_tracks_processed = 0\<rparr>"

text \<open>\<open>counter[k] += 1\<close>: a missing key counts as 0.\<close>

definition counter_get :: "(json \<times> nat) list \<Rightarrow> json \<Rightarrow> nat" where
  "counter_get c k = (case map_of c k of None \<Rightarrow> 0 | Some n \<Rightarrow> n)"

definition counter_incr :: "json \<Rightarrow> (json \<times> nat) list \<Rightarrow> (json \<times> nat) list" where
  "counter_incr k c = AList.update k (counter_get c k + 1) c"

text \<open>
  The dict literal of lines 57-65: the six remaining fields are read in order, and the
  first missing one raises.
\<close>

definition build_record :: "json \<Rightarrow> json \<Rightarrow> py_error + track_record" where
  "build_record uri track =
     (case getitem track ''track_name'' of Inl e \<Rightarrow> Inl e | Inr tn \<Rightarrow>
      case getitem track ''artist_name'' of Inl e \<Rightarrow> Inl e | Inr an \<Rightarrow>
      case getitem track ''artist_uri'' of Inl e \<Rightarrow> Inl e | Inr au \<Rightarrow>
      case getitem track ''album_name'' of Inl e \<Rightarrow> Inl e | Inr aln \<Rightarrow>
      case getitem track ''album_uri'' of Inl e \<Rightarrow> Inl e | Inr alu \<Rightarrow>
      case getitem track ''duration_ms'' of Inl e \<Rightarrow> Inl e | Inr d \<Rightarrow>
        Inr \<lparr>track_uri = uri, track_name = tn, artist_name = an, artist_uri = au,
             album_name = aln, album_uri = alu, duration_ms = d\<rparr>)"

text \<open>
  The body of the inner loop (lines 52-65). What was mutated before an exception stays
  mutated: the state comes back together with the exception, if any.
\<close>

definition process_track :: "extract_state \<Rightarrow> json \<Rightarrow> extract_state \<times> py_error option" where
  "process_track st track =
     (case getitem track ''track_uri'' of Inl e \<Rightarrow> (st, Some e) | Inr uri \<Rightarrow>
      case py_key uri of Inl e \<Rightarrow> (st, Some e) | Inr k \<Rightarrow>
        let st1 = st\<lparr>track_frequency := counter_incr k (track_frequency st),
                     total_tracks_processed := total_tracks_processed st + 1\<rparr>
        in if k \<in> set (map fst (unique_tracks st1)) then (st1, None)
           else (case build_record uri track of
                   Inl e \<Rightarrow> (st1, Some e)
                 | Inr r \<Rightarrow> (st1\<lparr>unique_tracks := AList.update k r (unique_tracks st1)\<rparr>, None)))"

fun process_tracks :: "extract_state \<Rightarrow> json list \<Rightarrow> extract_state \<times> py_error option" where
  "process_tracks st [] = (st, None)"
| "process_tracks st (t # ts) =
     (case process_track st t of
        (st1, Some e) \<Rightarrow> (st1, Some e)
      | (st1, None) \<Rightarrow> process_tracks st1 ts)"

definition process_playlist :: "extract_state \<Rightarrow> json \<Rightarrow> extract_state \<times> py_error option" where
  "process_playlist st playlist =
     (case getitem playlist ''tracks'' of Inl e \<Rightarrow> (st, Some e) | Inr tracks \<Rightarrow>
      case py_iter tracks of Inl e \<Rightarrow> (st, Some e) | Inr ts \<Rightarrow> process_tracks st ts)"

fun process_playlists :: "extract_state \<Rightarrow> json list \<Rightarrow> extract_state \<times> py_error option" where
  "process_playlists st [] = (st, None)"
| "process_playlists st (p # ps) =
     (case process_playlist st p of
        (st1, Some e) \<Rightarrow> (st1, Some e)
      | (st1, None) \<Rightarrow> process_playlists st1 ps)"

text \<open>
  A slice file is either one on which \<open>open\<close> or \<open>json.load\<close> raises, or a decoded
  document.
\<close>

datatype slice_content = Unreadable | Document json

type_synonym slice_file = "string \<times> slice_content"

text \<open>The \<open>try\<close> block of lines 46-65, before the handler.\<close>

definition process_file_body :: "extract_state \<Rightarrow> slice_content \<Rightarrow> extract_state \<times> py_error option" where
  "process_file_body st content =
     (case content of
        Unreadable \<Rightarrow> (st, Some OSError)
      | Document data \<Rightarrow>
          (case getitem data ''playlists'' of Inl e \<Rightarrow> (st, Some e) | Inr playlists \<Rightarrow>
           case py_iter playlists of Inl e \<Rightarrow> (st, Some e) | Inr ps \<Rightarrow> process_playlists st ps))"

text \<open>
  The file loop (lines 45-69): the handler passes the failure to \<open>logging.error\<close> and
  goes on with the next file. The second component lists the files so logged.
\<close>

fun scan_files :: "extract_state \<Rightarrow> slice_file list \<Rightarrow> extract_state \<times> string list" where
  "scan_files st [] = (st, [])"
| "scan_files st (f # fs) =
     (case process_file_body st (snd f) of (st1, err) \<Rightarrow>
      case scan_files st1 fs of (st2, logged) \<Rightarrow>
        (st2, (case err of None \<Rightarrow> [] | Some e \<Rightarrow> [fst f]) @ logged))"

text \<open>
  \<open>sorted(list(data_path.glob("mpd.slice.*.json")))\<close> over the entries of the directory,
  then \<open>slice_files[:max_files]\<close> when \<open>max_files\<close> is truthy (a negative bound drops
  files from the end).
\<close>

definition glob_match :: "string \<Rightarrow> bool" where
  "glob_match name \<longleftrightarrow>
     15 \<le> length name \<and> take 10 name = ''mpd.slice.'' \<and>
     drop (length name - 5) name = ''.json''"

definition slice_files :: "slice_file list \<Rightarrow> int option \<Rightarrow> slice_file list" where
  "slice_files data_dir max_files =
     (let files = sort_key fst (filter (\<lambda>f. glob_match (fst f)) data_dir)
      in case max_files of
           None \<Rightarrow> files
         | Some m \<Rightarrow>
             if m = 0 then files
             else if 0 < m then take (nat m) files
             else take (length files - nat (- m)) files)"

text \<open>
  Lines 41-77 on a list of files: the scan, then the summary, whose average divides by
  \<open>len(unique_tracks)\<close>.
\<close>

definition extract_from ::
  "slice_file list \<Rightarrow> py_error + (json \<times> track_record) list \<times> (json \<times> nat) list" where
  "extract_from files =
     (let st = fst (scan_files initial_state files)
      in if length (unique_tracks st) = 0 then Inl ZeroDivisionError
         else Inr (unique_tracks st, track_frequency st))"

definition extract_unique_tracks_from_mpd ::
  "slice_file list \<Rightarrow> int option \<Rightarrow> py_error + (json \<times> track_record) list \<times> (json \<times> nat) list" where
  "extract_unique_tracks_from_mpd data_dir max_files = extract_from (slice_files data_dir max_files)"

text \<open>The summary block of \<open>save_track_data\<close> (lines 91-94): the two counts it writes.\<close>

definition summary :: "(json \<times> track_record) list \<times> (json \<times> nat) list \<Rightarrow> nat \<times> nat" where
  "summary r = (length (fst r), sum_list (map snd (snd r)))"

subsection \<open>Track entries, well-formed files\<close>

text \<open>
  The identifier and the record that a track entry yields when all seven fields can be
  read and the identifier can serve as a dict key.
\<close>

definition read_track :: "json \<Rightarrow> (json \<times> track_record) option" where
  "read_track track =
     (case getitem track ''track_uri'' of Inl e \<Rightarrow> None | Inr uri \<Rightarrow>
      case py_key uri of Inl e \<Rightarrow> None | Inr k \<Rightarrow>
      case build_record uri track of Inl e \<Rightarrow> None | Inr r \<Rightarrow> Some (k, r))"

definition complete_track :: "json \<Rightarrow> bool" where
  "complete_track track \<longleftrightarrow> read_track track \<noteq> None"

text \<open>
  A well-formed document has a list under \<open>playlists\<close>, each playlist has a list under
  \<open>tracks\<close>, and every track entry is complete. Its track entries are taken in order.
\<close>

definition playlist_tracks :: "json \<Rightarrow> json list" where
  "playlist_tracks playlist =
     (case getitem playlist ''tracks'' of Inr (JList ts) \<Rightarrow> ts | _ \<Rightarrow> [])"

definition well_formed_playlist :: "json \<Rightarrow> bool" where
  "well_formed_playlist playlist \<longleftrightarrow>
     (case getitem playlist ''tracks'' of Inr (JList ts) \<Rightarrow> list_all complete_track ts | _ \<Rightarrow> False)"

definition doc_tracks :: "json \<Rightarrow> json list" where
  "doc_tracks data =
     (case getitem data ''playlists'' of
        Inr (JList ps) \<Rightarrow> concat (map playlist_tracks ps) | _ \<Rightarrow> [])"

definition well_formed_doc :: "json \<Rightarrow> bool" where
  "well_formed_doc data \<longleftrightarrow>
     (case getitem data ''playlists'' of
        Inr (JList ps) \<Rightarrow> list_all well_formed_playlist ps | _ \<Rightarrow> False)"

definition well_formed_file :: "slice_file \<Rightarrow> bool" where
  "well_formed_file f \<longleftrightarrow> (case snd f of Unreadable \<Rightarrow> False | Document data \<Rightarrow> well_formed_doc data)"

definition clean_or_unreadable :: "slice_file \<Rightarrow> bool" where
  "clean_or_unreadable f \<longleftrightarrow> snd f = Unreadable \<or> well_formed_file f"

text \<open>
  The entries of the well-formed files of a list, in scan order: identifier and record
  of each track entry.
\<close>

definition file_entries :: "slice_file \<Rightarrow> (json \<times> track_record) list" where
  "file_entries f =
     (case snd f of Unreadable \<Rightarrow> [] | Document data \<Rightarrow> List.map_filter read_track (doc_tracks data))"

definition entries_of :: "slice_file list \<Rightarrow> (json \<times> track_record) list" where
  "entries_of files = concat (map file_entries (filter well_formed_file files))"

text \<open>What the loop body does with a complete entry, and with a list of them.\<close>

definition record_entry :: "extract_state \<Rightarrow> json \<times> track_record \<Rightarrow> extract_state" where
  "record_entry st e =
     (let st1 = st\<lparr>track_frequency := counter_incr (fst e) (track_frequency st),
                   total_tracks_processed := total_tracks_processed st + 1\<rparr>
      in if fst e \<in> set (map fst (unique_tracks st1)) then st1
         else st1\<lparr>unique_tracks := AList.update (fst e) (snd e) (unique_tracks st1)\<rparr>)"

definition tally :: "extract_state \<Rightarrow> (json \<times> track_record) list \<Rightarrow> extract_state" where
  "tally st es = fold (\<lambda>e s. record_entry s e) es st"

text \<open>
  Where the body of the \<open>try\<close> block leaves the scan at a file that comes after the
  files \<open>pre\<close>: the state, and the exception if there is one.
\<close>

definition file_outcome :: "slice_file list \<Rightarrow> slice_file \<Rightarrow> extract_state \<times> py_error option" where
  "file_outcome pre f = process_file_body (fst (scan_files initial_state pre)) (snd f)"

text \<open>
  A later state keeps what an earlier one holds: no count is lower, the total is not
  lower, and every stored record is still stored under its identifier.
\<close>

definition keeps :: "extract_state \<Rightarrow> extract_state \<Rightarrow> bool" where
  "keeps st st' \<longleftrightarrow>
     (\<forall>k. counter_get (track_frequency st) k \<le> counter_get (track_frequency st') k) \<and>
     total_tracks_processed st \<le> total_tracks_processed st' \<and>
     (\<forall>k r. map_of (unique_tracks st) k = Some r \<longrightarrow> map_of (unique_tracks st') k = Some r)"

subsection \<open>Example directories\<close>

definition example_track :: "string \<Rightarrow> string \<Rightarrow> json" where
  "example_track uri name =
     JDict [(''pos'', JNum 0), (''artist_name'', JStr ''Artist''), (''track_uri'', JStr uri),
            (''artist_uri'', JStr ''spotify:artist:1''), (''track_name'', JStr name),
            (''album_uri'', JStr ''spotify:album:1''), (''duration_ms'', JNum 200000),
            (''album_name'', JStr ''Album'')]"

definition example_track_no_duration :: "string \<Rightarrow> string \<Rightarrow> json" where
  "example_track_no_duration uri name =
     JDict [(''pos'', JNum 0), (''artist_name'', JStr ''Artist''), (''track_uri'', JStr uri),
            (''artist_uri'', JStr ''spotify:artist:1''), (''track_name'', JStr name),
            (''album_uri'', JStr ''spotify:album:1''), (''album_name'', JStr ''Album'')]"

definition example_doc :: "json list \<Rightarrow> json" where
  "example_doc tracks =
     JDict [(''info'', JDict []),
            (''playlists'', JList [JDict [(''name'', JStr ''mix''), (''tracks'', JList tracks)]])]"

definition example_record :: "string \<Rightarrow> string \<Rightarrow> track_record" where
  "example_record uri name =
     \<lparr>track_uri = JStr uri, track_name = JStr name, artist_name = JStr ''Artist'',
      artist_uri = JStr ''spotify:artist:1'', album_name = JStr ''Album'',
      album_uri = JStr ''spotify:album:1'', duration_ms = JNum 200000\<rparr>"

text \<open>
  Two well-formed slices (listed out of order), a slice that cannot be decoded and a
  file that the pattern does not match.
\<close>

definition example_dir :: "slice_file list" where
  "example_dir =
     [(''mpd.slice.1000-1999.json'', Document (example_doc [example_track ''u2'' ''B'', example_track ''u1'' ''C''])),
      (''notes.txt'', Unreadable),
      (''mpd.slice.2000-2999.json'', Unreadable),
      (''mpd.slice.0-999.json'', Document (example_doc [example_track ''u1'' ''A'']))]"

text \<open>A slice whose second track entry lacks \<open>duration_ms\<close>.\<close>

definition example_dir_partial :: "slice_file list" where
  "example_dir_partial =
     [(''mpd.slice.0-999.json'', Document (example_doc [example_track ''u1'' ''A''])),
      (''mpd.slice.1000-1999.json'',
       Document (example_doc [example_track ''u2'' ''B'', example_track_no_duration ''u3'' ''C'',
                              example_track ''u4'' ''D'']))]"

text \<open>An identifier whose first occurrence lacks \<open>duration_ms\<close>.\<close>

definition example_dir_first_incomplete :: "slice_file list" where
  "example_dir_first_incomplete =
     [(''mpd.slice.1000-1999.json'', Document (example_doc [example_track ''u1'' ''B''])),
      (''mpd.slice.0-999.json'', Document (example_doc [example_track_no_duration ''u1'' ''A'']))]"

section \<open>The catalog client (src/dataETL/spotify_client.py)\<close>

text \<open>\<open>s.split(sep)\<close> for a one-character separator: never empty.\<close>

fun split_on :: "char \<Rightarrow> string \<Rightarrow> string list" where
  "split_on sep [] = [[]]"
| "split_on sep (c # cs) =
     (if c = sep then [] # split_on sep cs
      else (case split_on sep cs of w # ws \<Rightarrow> (c # w) # ws | [] \<Rightarrow> [[c]]))"

definition startswith :: "string \<Rightarrow> string \<Rightarrow> bool" where
  "startswith s p \<longleftrightarrow> take (length p) s = p"

text \<open>Lines 85-90: \<open>track_uri.split(":")[-1]\<close> is the last piece.\<close>

definition extract_track_id_from_uri :: "string \<Rightarrow> string" where
  "extract_track_id_from_uri uri =
     (if startswith uri ''spotify:track:'' then last (split_on CHR '':'' uri) else uri)"

text \<open>
  A feature object is a dict from field names to values; the values pass through the
  code untouched, so their type is a parameter. The result of a lookup maps an
  identifier to a feature record or to \<open>None\<close>, the "unavailable" marker.
\<close>

type_synonym 'v features = "(string \<times> 'v) list"

type_synonym 'v feature_dict = "(string \<times> 'v features option) list"

text \<open>
  What \<open>sp.audio_features(track_ids)\<close> can do: return a list with a feature object or
  \<open>None\<close> in each slot, raise a \<open>SpotifyException\<close> with a status and headers, or
  raise something else (an answer that cannot be iterated raises inside the \<open>try\<close> and
  is covered by the last case). \<open>e.headers\<close> is always a mapping (the exception's
  constructor puts an empty one where none is given), and only \<open>Retry-After\<close> is read
  from it: the header may be missing, hold a value that \<open>int()\<close> converts, or hold one
  that \<open>int()\<close> rejects.
\<close>

datatype retry_after = NoRetryAfter | RetryAfterInt int | RetryAfterText

datatype 'v service_outcome =
    Returns "'v features option list"
  | RaisesSpotifyException int retry_after
  | RaisesOther

text \<open>
  What the code does besides computing: calls, sleeps, log lines and file writes, in
  order. Informational log lines that no later step depends on are left out.
\<close>

datatype log_level = LogInfo | LogWarning | LogError

datatype 'v event =
    BatchCall "string list"
  | RemoteCall "string list"
  | Sleep real
  | Log log_level
  | LogCounts nat nat nat
  | SaveFeatures string "'v feature_dict"
  | SaveFailed string "string list"

text \<open>\<open>int(e.headers.get("Retry-After", 60))\<close> in the handler of line 136.\<close>

fun retry_after_seconds :: "retry_after \<Rightarrow> py_error + int" where
  "retry_after_seconds NoRetryAfter = Inr 60"
| "retry_after_seconds (RetryAfterInt n) = Inr n"
| "retry_after_seconds RetryAfterText = Inl ValueError"

text \<open>
  \<open>time.sleep(d)\<close> first converts the duration to nanoseconds in 64 bits, which raises
  \<open>OverflowError\<close> outside that range, and then raises \<open>ValueError\<close> on a negative
  duration. The duration is a real number here: the rounding of a float at the two ends
  of the range, the infinities and NaN are left out.
\<close>

definition sleep_limit :: real where
  "sleep_limit = 2 ^ 63 / 10 ^ 9"

definition sleep_error :: "real \<Rightarrow> py_error option" where
  "sleep_error d =
     (if d < - sleep_limit \<or> sleep_limit \<le> d then Some OverflowError
      else if d < 0 then Some ValueError
      else None)"

definition py_sleep :: "real \<Rightarrow> py_error + 'v event list" where
  "py_sleep d = (case sleep_error d of Some e \<Rightarrow> Inl e | None \<Rightarrow> Inr [Sleep d])"

definition feature_keys :: "string list" where
  "feature_keys =
     [''acousticness'', ''danceability'', ''energy'', ''instrumentalness'', ''liveness'',
      ''loudness'', ''speechiness'', ''tempo'', ''valence'', ''key'', ''mode'',
      ''time_signature'']"

text \<open>The dict literal of lines 117-130: each field is read by name, a missing one raises.\<close>

fun pick_fields :: "string list \<Rightarrow> 'v features \<Rightarrow> py_error + 'v features" where
  "pick_fields [] d = Inr []"
| "pick_fields (k # ks) d =
     (case map_of d k of
        None \<Rightarrow> Inl KeyError
      | Some v \<Rightarrow> (case pick_fields ks d of Inl e \<Rightarrow> Inl e | Inr r \<Rightarrow> Inr ((k, v) # r)))"

definition feature_record :: "'v features \<Rightarrow> py_error + 'v features" where
  "feature_record d = pick_fields feature_keys d"

text \<open>
  The loop of lines 113-132 from slot \<open>i\<close> on. \<open>track_uris[i]\<close> raises past the end of
  the list; a slot that is \<open>None\<close> or an empty dict is falsy.
\<close>

fun map_results ::
  "string list \<Rightarrow> 'v features option list \<Rightarrow> nat \<Rightarrow> 'v feature_dict \<Rightarrow> py_error + 'v feature_dict" where
  "map_results track_uris [] i result = Inr result"
| "map_results track_uris (features # rest) i result =
     (if length track_uris \<le> i then Inl IndexError
      else case features of
             None \<Rightarrow> map_results track_uris rest (i + 1) (AList.update (track_uris ! i) None result)
           | Some d \<Rightarrow>
               if d = [] then
                 map_results track_uris rest (i + 1) (AList.update (track_uris ! i) None result)
               else (case feature_record d of
                       Inl e \<Rightarrow> Inl e
                     | Inr r \<Rightarrow>
                         map_results track_uris rest (i + 1)
                           (AList.update (track_uris ! i) (Some r) result)))"

text \<open>
  Lines 92-147. The first argument is the remote service. The result is what happened
  (remote call, log lines, sleep) and either the exception that leaves the function or
  the dict it returns. An exception raised inside the handler of line 136 is not caught
  by the handler of line 145.
\<close>

definition get_audio_features_batch ::
  "(string list \<Rightarrow> 'v service_outcome) \<Rightarrow> string list \<Rightarrow>
   'v event list \<times> (py_error + 'v feature_dict)" where
  "get_audio_features_batch audio_features track_uris =
     (if track_uris = [] then ([], Inr [])
      else
        let track_uris = (if 100 < length track_uris then take 100 track_uris else track_uris);
            track_ids = map extract_track_id_from_uri track_uris
        in case audio_features track_ids of
             Returns features_list \<Rightarrow>
               (case map_results track_uris features_list 0 [] of
                  Inl e \<Rightarrow> ([RemoteCall track_ids, Log LogError], Inr [])
                | Inr result \<Rightarrow> ([RemoteCall track_ids], Inr result))
           | RaisesSpotifyException http_status hdrs \<Rightarrow>
               if http_status = 429 then
                 (case retry_after_seconds hdrs of
                    Inl e \<Rightarrow> ([RemoteCall track_ids], Inl e)
                  | Inr retry_after \<Rightarrow>
                      (case py_sleep (of_int retry_after) of
                         Inl e \<Rightarrow> ([RemoteCall track_ids, Log LogWarning], Inl e)
                       | Inr slept \<Rightarrow> ([RemoteCall track_ids, Log LogWarning] @ slept, Inr [])))
               else ([RemoteCall track_ids, Log LogError], Inr [])
           | RaisesOther \<Rightarrow> ([RemoteCall track_ids, Log LogError], Inr []))"

section \<open>The enrichment orchestrator (collect_all_audio_features)\<close>

record 'v collection_state =
  all_features :: "'v feature_dict"
  failed_tracks :: "string list"
  successful_batches :: nat
  trace :: "'v event list"

definition initial_collection :: "'v collection_state" where
  "initial_collection = \<lparr>all_features = [], failed_tracks = [], successful_batches = 0, trace = []\<rparr>"

text \<open>\<open>d.update(e)\<close>: the items of \<open>e\<close> are assigned in order.\<close>

definition dict_update :: "('k \<times> 'a) list \<Rightarrow> ('k \<times> 'a) list \<Rightarrow> ('k \<times> 'a) list" where
  "dict_update d e = fold (\<lambda>kv acc. AList.update (fst kv) (snd kv) acc) e d"

text \<open>\<open>range(i, n, step)\<close> for a step that is not zero, from \<open>i \<le> n\<close>.\<close>

function py_range :: "int \<Rightarrow> int \<Rightarrow> int \<Rightarrow> int list" where
  "py_range i n step = (if 0 < step \<and> i < n then i # py_range (i + step) n step else [])"
  by pat_completeness auto
termination
  by (relation "measure (\<lambda>(i, n, step). nat (n - i))") auto

text \<open>\<open>len([f for f in all_features.values() if f is not None])\<close>\<close>

definition success_count :: "'v feature_dict \<Rightarrow> nat" where
  "success_count d = length (filter (\<lambda>kv. snd kv \<noteq> None) d)"

text \<open>
  Lines 230-237: \<open>os.makedirs(os.path.dirname(filename))\<close> raises when the file name has
  no directory part (no \<open>/\<close>), the handler logs it and nothing is written. Other
  failures of the file system are left out: the write is taken to succeed.
\<close>

definition save_features_to_file :: "'v feature_dict \<Rightarrow> string \<Rightarrow> 'v event list" where
  "save_features_to_file features filename =
     (if CHR ''/'' \<in> set filename then [SaveFeatures filename features] else [Log LogError])"

text \<open>The handler of lines 204-207.\<close>

definition on_batch_error :: "string list \<Rightarrow> 'v collection_state \<Rightarrow> 'v collection_state" where
  "on_batch_error batch st =
     st\<lparr>failed_tracks := failed_tracks st @ batch, trace := trace st @ [Log LogError, Sleep 5]\<rparr>"

text \<open>
  One round of the loop of lines 168-207, for the start index \<open>i\<close>. The service may
  answer differently from call to call: \<open>sp k\<close> is what it does during batch number \<open>k\<close>.
\<close>

definition process_batch ::
  "(nat \<Rightarrow> string list \<Rightarrow> 'v service_outcome) \<Rightarrow> string list \<Rightarrow> string \<Rightarrow> int \<Rightarrow> real \<Rightarrow>
   int \<Rightarrow> 'v collection_state \<Rightarrow> 'v collection_state" where
  "process_batch sp track_uris output_file batch_size delay i st =
     (let batch = take (nat batch_size) (drop (nat i) track_uris);
          batch_num = i div batch_size + 1;
          call = get_audio_features_batch (sp (nat batch_num)) batch;
          st1 = st\<lparr>trace := trace st @ [BatchCall batch] @ fst call\<rparr>
      in case snd call of
           Inl e \<Rightarrow> on_batch_error batch st1
         | Inr batch_features \<Rightarrow>
             let st2 =
               (if batch_features \<noteq> [] then
                  st1\<lparr>all_features := dict_update (all_features st1) batch_features,
                      successful_batches := successful_batches st1 + 1,
                      failed_tracks := failed_tracks st1 @
                        filter (\<lambda>uri. uri \<notin> set (map fst batch_features) \<or>
                                      map_of batch_features uri = Some None) batch\<rparr>
                else
                  st1\<lparr>failed_tracks := failed_tracks st1 @ batch,
                      trace := trace st1 @ [Log LogWarning]\<rparr>)
             in case py_sleep delay of
                  Inl e \<Rightarrow> on_batch_error batch st2
                | Inr slept \<Rightarrow>
                    let st3 = st2\<lparr>trace := trace st2 @ slept\<rparr>
                    in if batch_num mod 10 = 0 then
                         st3\<lparr>trace := trace st3 @
                               save_features_to_file (all_features st3) (output_file @ ''.tmp'') @
                               [Log LogInfo]\<rparr>
                       else st3)"

text \<open>
  Lines 161-228. \<open>total_batches\<close> (line 166) divides by \<open>batch_size\<close>; the success rate
  (line 219) divides by \<open>len(track_uris)\<close>, after the final save and the three counts
  have been logged. The state comes back with the exception or the returned dict.
\<close>

definition collect_all_audio_features ::
  "(nat \<Rightarrow> string list \<Rightarrow> 'v service_outcome) \<Rightarrow> string list \<Rightarrow> string \<Rightarrow> int \<Rightarrow> real \<Rightarrow>
   'v collection_state \<times> (py_error + 'v feature_dict)" where
  "collect_all_audio_features sp track_uris output_file batch_size delay =
     (if batch_size = 0 then (initial_collection, Inl ZeroDivisionError)
      else
        let st = fold (process_batch sp track_uris output_file batch_size delay)
                   (py_range 0 (int (length track_uris)) batch_size) initial_collection;
            st1 = st\<lparr>trace := trace st @
                    save_features_to_file (all_features st) output_file @
                    [LogCounts (length track_uris) (success_count (all_features st))
                       (length (failed_tracks st))]\<rparr>
        in if length track_uris = 0 then (st1, Inl ZeroDivisionError)
           else if failed_tracks st1 \<noteq> [] then
             (st1\<lparr>trace := trace st1 @
                    [Log LogInfo, SaveFailed (output_file @ ''.failed'') (failed_tracks st1)]\<rparr>,
              Inr (all_features st1))
           else (st1\<lparr>trace := trace st1 @ [Log LogInfo]\<rparr>, Inr (all_features st1)))"


subsection \<open>Notions used in the statements about the client and the orchestrator\<close>

text \<open>The text after the last occurrence of a character, all of it when there is none.\<close>

definition text_after_last :: "char \<Rightarrow> string \<Rightarrow> string" where
  "text_after_last sep s = rev (takeWhile (\<lambda>c. c \<noteq> sep) (rev s))"

text \<open>
  A slot the loop of lines 113-132 can translate: \<open>None\<close>, an empty object, or an
  object with all twelve fields. Its value in the result: the marker, or the record
  with the twelve fields copied.
\<close>

definition slot_ok :: "'v features option \<Rightarrow> bool" where
  "slot_ok slot \<longleftrightarrow>
     (case slot of None \<Rightarrow> True
      | Some d \<Rightarrow> d = [] \<or> list_all (\<lambda>k. map_of d k \<noteq> None) feature_keys)"

definition slot_value :: "'v features option \<Rightarrow> 'v features option" where
  "slot_value slot =
     (case slot of None \<Rightarrow> None
      | Some d \<Rightarrow> if d = [] then None else Some (map (\<lambda>k. (k, the (map_of d k))) feature_keys))"

text \<open>The chunks handed to \<open>get_audio_features_batch\<close>, in order of the calls.\<close>

fun batch_calls :: "'v event list \<Rightarrow> string list list" where
  "batch_calls [] = []"
| "batch_calls (BatchCall b # es) = b # batch_calls es"
| "batch_calls (e # es) = batch_calls es"

text \<open>The chunks that a full run hands to the batch lookup.\<close>

definition issued_batches ::
  "(nat \<Rightarrow> string list \<Rightarrow> 'v service_outcome) \<Rightarrow> string list \<Rightarrow> string \<Rightarrow> int \<Rightarrow> real \<Rightarrow>
   string list list" where
  "issued_batches sp track_uris output_file batch_size delay =
     batch_calls (trace (fst (collect_all_audio_features sp track_uris output_file batch_size delay)))"

text \<open>
  Where an identifier stands at the end of a run: with a populated record and not on
  the failure list, with the marker and on the failure list, or on the failure list
  only. Any other combination has no standing.
\<close>

datatype standing = Populated | Unavailable | FailedOnly

definition standing_of :: "'v collection_state \<Rightarrow> string \<Rightarrow> standing option" where
  "standing_of st uri =
     (case map_of (all_features st) uri of
        Some (Some r) \<Rightarrow> if uri \<in> set (failed_tracks st) then None else Some Populated
      | Some None \<Rightarrow> if uri \<in> set (failed_tracks st) then Some Unavailable else None
      | None \<Rightarrow> if uri \<in> set (failed_tracks st) then Some FailedOnly else None)"


subsection \<open>Example answers of the service\<close>

definition example_features :: "int features" where
  "example_features =
     [(''danceability'', 7), (''energy'', 8), (''key'', 5), (''loudness'', -6), (''mode'', 1),
      (''speechiness'', 0), (''acousticness'', 1), (''instrumentalness'', 0), (''liveness'', 2),
      (''valence'', 9), (''tempo'', 120), (''type'', 0), (''duration_ms'', 200000),
      (''time_signature'', 4)]"

definition example_feature_record :: "int features" where
  "example_feature_record =
     [(''acousticness'', 1), (''danceability'', 7), (''energy'', 8), (''instrumentalness'', 0),
      (''liveness'', 2), (''loudness'', -6), (''speechiness'', 0), (''tempo'', 120),
      (''valence'', 9), (''key'', 5), (''mode'', 1), (''time_signature'', 4)]"

text \<open>A service that has features for every identifier except \<open>x\<close>.\<close>

definition example_service :: "string list \<Rightarrow> int service_outcome" where
  "example_service ids = Returns (map (\<lambda>i. if i = ''x'' then None else Some example_features) ids)"

text \<open>A service that answers the first call and fails from then on.\<close>

definition example_service_flaky :: "nat \<Rightarrow> string list \<Rightarrow> int service_outcome" where
  "example_service_flaky k ids = (if k = 1 then example_service ids else RaisesOther)"


section \<open>The pipeline driver (scripts/enrich_dataset.py)\<close>

text \<open>
  \<open>os.getenv\<close> gives \<open>None\<close> or a string. \<open>if client_id and client_secret\<close> takes a
  credential that is there and not empty.
\<close>

fun credentials :: "string option \<Rightarrow> string option \<Rightarrow> (string \<times> string) option" where
  "credentials (Some i) (Some s) = (if i \<noteq> [] \<and> s \<noteq> [] then Some (i, s) else None)"
| "credentials _ _ = None"

text \<open>
  The constructor (spotify_client.py, lines 23-50) validates its arguments, then
  authenticates and tests the connection; whatever is raised is logged and raised
  again. The outcome of the remote part is a parameter.
\<close>

definition init_collector :: "string \<Rightarrow> string \<Rightarrow> py_error option \<Rightarrow> py_error option" where
  "init_collector client_id client_secret connection =
     (if client_id = [] \<or> client_secret = [] then Some ValueError else connection)"

datatype driver_event =
    Extracted | TracksSaved | EnrichmentStarted | CollectorConstructed | CollectionFinished
  | FailureLogged py_error | SkipLogged | PipelineComplete

text \<open>
  \<open>main\<close> (lines 14-74), with \<open>MAX_FILES = 5\<close>. The parameters are the content of
  \<open>data/raw\<close>, the outcome of \<open>save_track_data\<close> (its file write may fail), the two
  environment variables, the outcome of the connection test, and whether the collection
  run over the extracted identifiers raises. The result is what the driver did and the
  exception that leaves it, if any.
\<close>

definition main ::
  "slice_file list \<Rightarrow> py_error option \<Rightarrow> string option \<Rightarrow> string option \<Rightarrow> py_error option \<Rightarrow>
   (json list \<Rightarrow> py_error option) \<Rightarrow> driver_event list \<times> py_error option" where
  "main data_raw persist client_id client_secret connection run =
     (case extract_unique_tracks_from_mpd data_raw (Some 5) of
        Inl e \<Rightarrow> ([], Some e)
      | Inr extracted \<Rightarrow>
          (case persist of
             Some e \<Rightarrow> ([Extracted], Some e)
           | None \<Rightarrow>
               (case credentials client_id client_secret of
                  Some (i, s) \<Rightarrow>
                    (case init_collector i s connection of
                       Some e \<Rightarrow>
                         ([Extracted, TracksSaved, EnrichmentStarted, FailureLogged e,
                           PipelineComplete], None)
                     | None \<Rightarrow>
                         (case run (map fst (fst extracted)) of
                            Some e \<Rightarrow>
                              ([Extracted, TracksSaved, EnrichmentStarted, CollectorConstructed,
                                FailureLogged e, PipelineComplete], None)
                          | None \<Rightarrow>
                              ([Extracted, TracksSaved, EnrichmentStarted, CollectorConstructed,
                                CollectionFinished, PipelineComplete], None)))
                | None \<Rightarrow> ([Extracted, TracksSaved, SkipLogged, PipelineComplete], None))))"


section \<open>Properties of the identifier extractor\<close>

subsection \<open>Well-formed files are tallied entry by entry\<close>

lemma tally_Nil [simp]: "tally st [] = st"
  by (simp add: tally_def)

lemma tally_Cons [simp]: "tally st (e # es) = tally (record_entry st e) es"
  by (simp add: tally_def)

lemma tally_append: "tally st (xs @ ys) = tally (tally st xs) ys"
  by (simp add: tally_def)

lemma process_track_complete:
  "read_track t = Some e \<Longrightarrow> process_track st t = (record_entry st e, None)"
proof -
  assume rt: "read_track t = Some e"
  obtain uri where u: "getitem t ''track_uri'' = Inr uri"
    using rt by (auto simp: read_track_def split: sum.splits)
  obtain k where k: "py_key uri = Inr k"
    using rt u by (auto simp: read_track_def split: sum.splits)
  obtain r where r: "build_record uri t = Inr r"
    using rt u k by (auto simp: read_track_def split: sum.splits)
  have e: "e = (k, r)"
    using rt u k r by (simp add: read_track_def)
  show ?thesis
    by (simp add: process_track_def record_entry_def Let_def u k r e)
qed

lemma map_filter_append: "List.map_filter f (xs @ ys) = List.map_filter f xs @ List.map_filter f ys"
  by (simp add: List.map_filter_def)

lemma process_tracks_complete:
  "list_all complete_track ts \<Longrightarrow>
   process_tracks st ts = (tally st (List.map_filter read_track ts), None)"
proof (induction ts arbitrary: st)
  case Nil
  then show ?case by (simp add: List.map_filter_simps)
next
  case (Cons t ts)
  then obtain e where e: "read_track t = Some e"
    by (auto simp: complete_track_def)
  with Cons show ?case
    by (simp add: process_track_complete List.map_filter_simps)
qed

lemma process_playlist_well_formed:
  "well_formed_playlist p \<Longrightarrow>
   process_playlist st p = (tally st (List.map_filter read_track (playlist_tracks p)), None)"
  by (auto simp: well_formed_playlist_def process_playlist_def playlist_tracks_def
      process_tracks_complete split: sum.splits json.splits)

lemma process_playlists_well_formed:
  "list_all well_formed_playlist ps \<Longrightarrow>
   process_playlists st ps =
     (tally st (List.map_filter read_track (concat (map playlist_tracks ps))), None)"
proof (induction ps arbitrary: st)
  case Nil
  then show ?case by (simp add: List.map_filter_simps)
next
  case (Cons p ps)
  then show ?case
    by (simp add: process_playlist_well_formed map_filter_append tally_append)
qed

lemma process_file_body_well_formed:
  "well_formed_file f \<Longrightarrow> process_file_body st (snd f) = (tally st (file_entries f), None)"
  by (auto simp: well_formed_file_def well_formed_doc_def process_file_body_def file_entries_def
      doc_tracks_def process_playlists_well_formed split: slice_content.splits sum.splits json.splits)

lemma scan_files_unreadable:
  "snd f = Unreadable \<Longrightarrow>
   scan_files st (f # fs) = (fst (scan_files st fs), fst f # snd (scan_files st fs))"
  by (cases "scan_files st fs") (simp add: process_file_body_def)

lemma scan_files_Cons:
  "scan_files st (f # fs) =
     (fst (scan_files (fst (process_file_body st (snd f))) fs),
      (case snd (process_file_body st (snd f)) of None \<Rightarrow> [] | Some e \<Rightarrow> [fst f]) @
      snd (scan_files (fst (process_file_body st (snd f))) fs))"
  by (cases "process_file_body st (snd f)";
      cases "scan_files (fst (process_file_body st (snd f))) fs") simp

lemma scan_files_skip_unreadable:
  "fst (scan_files st (filter (\<lambda>f. snd f \<noteq> Unreadable) fs)) = fst (scan_files st fs)"
proof (induction fs arbitrary: st)
  case Nil
  then show ?case by simp
next
  case (Cons f fs)
  show ?case
  proof (cases "snd f = Unreadable")
    case True
    then show ?thesis using Cons by (simp add: scan_files_unreadable del: scan_files.simps)
  next
    case False
    then show ?thesis using Cons by (simp add: scan_files_Cons del: scan_files.simps)
  qed
qed

lemma scan_files_logs_unreadable:
  "f \<in> set fs \<Longrightarrow> snd f = Unreadable \<Longrightarrow> fst f \<in> set (snd (scan_files st fs))"
proof (induction fs arbitrary: st)
  case Nil
  then show ?case by simp
next
  case (Cons g fs)
  show ?case
  proof (cases "f = g")
    case True
    with Cons.prems show ?thesis
      by (simp add: scan_files_unreadable del: scan_files.simps)
  next
    case False
    with Cons show ?thesis
      by (simp add: scan_files_Cons del: scan_files.simps)
  qed
qed

text \<open>What a state holds is kept by every later step of the scan.\<close>

lemma keeps_refl [simp]: "keeps st st"
  by (simp add: keeps_def)

lemma keeps_trans: "keeps a b \<Longrightarrow> keeps b c \<Longrightarrow> keeps a c"
  unfolding keeps_def by (meson order_trans)

lemma counter_get_incr_le: "counter_get c k' \<le> counter_get (counter_incr k c) k'"
  by (simp add: counter_incr_def counter_get_def update_conv')

lemma process_track_keeps: "keeps st (fst (process_track st t))"
proof -
  have u: "k \<notin> fst ` set al \<Longrightarrow> map_of al k' = Some r \<Longrightarrow>
      map_of (AList.update k v al) k' = Some r" for k k' v r and al :: "(json \<times> track_record) list"
    by (auto simp: update_conv' map_of_eq_None_iff [symmetric] simp del: map_of_eq_None_iff)
  show ?thesis
    by (auto simp: process_track_def keeps_def Let_def counter_get_incr_le u
        split: sum.splits)
qed

lemma process_tracks_keeps: "keeps st (fst (process_tracks st ts))"
proof (induction ts arbitrary: st)
  case Nil
  then show ?case by simp
next
  case (Cons t ts)
  obtain st1 err where p: "process_track st t = (st1, err)" by (cases "process_track st t")
  have k1: "keeps st st1" using process_track_keeps [of st t] p by simp
  show ?case
  proof (cases err)
    case None
    with p k1 Cons [of st1] show ?thesis by (auto intro: keeps_trans)
  next
    case (Some e)
    with p k1 show ?thesis by simp
  qed
qed

lemma process_playlist_keeps: "keeps st (fst (process_playlist st p))"
  by (auto simp: process_playlist_def process_tracks_keeps split: sum.splits)

lemma process_playlists_keeps: "keeps st (fst (process_playlists st ps))"
proof (induction ps arbitrary: st)
  case Nil
  then show ?case by simp
next
  case (Cons q ps)
  obtain st1 err where p: "process_playlist st q = (st1, err)" by (cases "process_playlist st q")
  have k1: "keeps st st1" using process_playlist_keeps [of st q] p by simp
  show ?case
  proof (cases err)
    case None
    with p k1 Cons [of st1] show ?thesis by (auto intro: keeps_trans)
  next
    case (Some e)
    with p k1 show ?thesis by simp
  qed
qed

lemma process_file_body_keeps: "keeps st (fst (process_file_body st c))"
  by (auto simp: process_file_body_def process_playlists_keeps
      split: slice_content.splits sum.splits)

lemma scan_files_Cons':
  "scan_files st (f # fs) =
     (fst (scan_files (fst (process_file_body st (snd f))) fs),
      (case snd (process_file_body st (snd f)) of None \<Rightarrow> [] | Some e \<Rightarrow> [fst f]) @
      snd (scan_files (fst (process_file_body st (snd f))) fs))"
  by (cases "process_file_body st (snd f)";
      cases "scan_files (fst (process_file_body st (snd f))) fs") simp

lemma scan_files_keeps: "keeps st (fst (scan_files st fs))"
proof (induction fs arbitrary: st)
  case Nil
  then show ?case by simp
next
  case (Cons f fs)
  have "keeps st (fst (process_file_body st (snd f)))"
    by (rule process_file_body_keeps)
  moreover have "keeps (fst (process_file_body st (snd f)))
      (fst (scan_files (fst (process_file_body st (snd f))) fs))"
    by (rule Cons)
  ultimately show ?case
    by (simp add: scan_files_Cons' del: scan_files.simps) (rule keeps_trans)
qed

lemma scan_files_append:
  "scan_files st (xs @ ys) =
     (fst (scan_files (fst (scan_files st xs)) ys),
      snd (scan_files st xs) @ snd (scan_files (fst (scan_files st xs)) ys))"
proof (induction xs arbitrary: st)
  case Nil
  then show ?case by simp
next
  case (Cons x xs)
  show ?case
    by (simp add: scan_files_Cons' Cons [of "fst (process_file_body st (snd x))"]
        del: scan_files.simps)
qed

lemma scan_files_at_file:
  "fst (scan_files initial_state (pre @ f # post)) =
     fst (scan_files (fst (file_outcome pre f)) post) \<and>
   (snd (file_outcome pre f) \<noteq> None \<longrightarrow>
      fst f \<in> set (snd (scan_files initial_state (pre @ f # post)))) \<and>
   keeps (fst (file_outcome pre f)) (fst (scan_files initial_state (pre @ f # post)))"
proof -
  have a: "fst (scan_files initial_state (pre @ f # post)) =
      fst (scan_files (fst (file_outcome pre f)) post)"
    by (simp add: scan_files_append scan_files_Cons' file_outcome_def del: scan_files.simps)
  have b: "snd (file_outcome pre f) \<noteq> None \<longrightarrow>
      fst f \<in> set (snd (scan_files initial_state (pre @ f # post)))"
    by (auto simp: scan_files_append scan_files_Cons' file_outcome_def simp del: scan_files.simps)
  have c: "keeps (fst (file_outcome pre f)) (fst (scan_files initial_state (pre @ f # post)))"
    unfolding a by (rule scan_files_keeps)
  from a b c show ?thesis by blast
qed

lemma scan_files_clean:
  "list_all (\<lambda>f. snd f = Unreadable \<or> well_formed_file f) fs \<Longrightarrow>
   fst (scan_files st fs) = tally st (entries_of fs)"
proof (induction fs arbitrary: st)
  case Nil
  then show ?case by (simp add: entries_of_def)
next
  case (Cons f fs)
  show ?case
  proof (cases "snd f = Unreadable")
    case True
    then have "\<not> well_formed_file f" by (simp add: well_formed_file_def)
    with True Cons show ?thesis
      by (simp add: scan_files_unreadable entries_of_def del: scan_files.simps)
  next
    case False
    with Cons.prems have wf: "well_formed_file f" by simp
    with Cons show ?thesis
      by (simp add: scan_files_Cons process_file_body_well_formed entries_of_def tally_append
          del: scan_files.simps)
  qed
qed

lemma scan_files_tally:
  "list_all clean_or_unreadable fs \<Longrightarrow> fst (scan_files st fs) = tally st (entries_of fs)"
  using scan_files_clean [of fs st] by (simp add: clean_or_unreadable_def [abs_def])

subsection \<open>What a tally holds\<close>

lemma sum_counter_incr: "sum_list (map snd (counter_incr k c)) = sum_list (map snd c) + 1"
  unfolding counter_incr_def counter_get_def by (induction c) auto

lemma counter_get_incr:
  "counter_get (counter_incr k c) k' = counter_get c k' + (if k' = k then 1 else 0)"
  by (simp add: counter_incr_def counter_get_def update_conv')

lemma keys_counter_incr: "fst ` set (counter_incr k c) = insert k (fst ` set c)"
  by (simp add: counter_incr_def dom_update)

lemma record_entry_frequency [simp]:
  "track_frequency (record_entry st e) = counter_incr (fst e) (track_frequency st)"
  by (simp add: record_entry_def Let_def)

lemma record_entry_unique:
  "unique_tracks (record_entry st e) =
     (if fst e \<in> fst ` set (unique_tracks st) then unique_tracks st
      else unique_tracks st @ [e])"
proof -
  have "fst e \<notin> fst ` set al \<Longrightarrow> AList.update (fst e) (snd e) al = al @ [e]" for al
    by (induction al) auto
  then show ?thesis
    by (simp add: record_entry_def Let_def)
qed

lemma tally_frequency_sum:
  "sum_list (map snd (track_frequency (tally st es))) =
     sum_list (map snd (track_frequency st)) + length es"
  by (induction es arbitrary: st) (simp_all add: sum_counter_incr)

lemma tally_counter_get:
  "counter_get (track_frequency (tally st es)) k =
     counter_get (track_frequency st) k + length (filter (\<lambda>e. fst e = k) es)"
  by (induction es arbitrary: st) (auto simp: counter_get_incr)

lemma tally_frequency_keys:
  "fst ` set (track_frequency (tally st es)) = fst ` set (track_frequency st) \<union> fst ` set es"
  by (induction es arbitrary: st) (auto simp: keys_counter_incr)

lemma tally_unique_keys:
  "fst ` set (unique_tracks (tally st es)) = fst ` set (unique_tracks st) \<union> fst ` set es"
  by (induction es arbitrary: st) (auto simp: record_entry_unique)

lemma tally_unique_distinct:
  "distinct (map fst (unique_tracks st)) \<Longrightarrow> distinct (map fst (unique_tracks (tally st es)))"
  by (induction es arbitrary: st) (auto simp: record_entry_unique)

lemma map_of_shadowed:
  "fst e \<in> fst ` set al \<Longrightarrow> map_of (al @ e # es) = map_of (al @ es)"
proof (rule ext)
  fix x
  assume "fst e \<in> fst ` set al"
  then obtain v where "map_of al (fst e) = Some v"
    by (metis domD dom_map_of_conv_image_fst)
  then show "map_of (al @ e # es) x = map_of (al @ es) x"
    by (cases e) (auto simp: map_add_def split: option.splits)
qed

lemma tally_unique_map:
  "map_of (unique_tracks (tally st es)) = map_of (unique_tracks st @ es)"
proof (induction es arbitrary: st)
  case Nil
  then show ?case by simp
next
  case (Cons e es)
  show ?case
  proof (cases "fst e \<in> fst ` set (unique_tracks st)")
    case True
    then show ?thesis
      using Cons [of "record_entry st e"] map_of_shadowed [OF True, of es]
      by (simp add: record_entry_unique)
  next
    case False
    then show ?thesis
      using Cons [of "record_entry st e"] by (simp add: record_entry_unique)
  qed
qed

lemma map_of_first_occurrence:
  "find (\<lambda>e. fst e = k) es = Some e \<Longrightarrow> map_of es k = Some (snd e)"
  by (induction es) (auto split: if_splits)

lemma extract_from_clean:
  assumes "list_all clean_or_unreadable fs" and "entries_of fs \<noteq> []"
  shows "extract_from fs =
           Inr (unique_tracks (tally initial_state (entries_of fs)),
                track_frequency (tally initial_state (entries_of fs)))"
proof -
  have "fst ` set (unique_tracks (tally initial_state (entries_of fs))) \<noteq> {}"
    using assms(2) by (simp add: tally_unique_keys)
  then have "unique_tracks (tally initial_state (entries_of fs)) \<noteq> []"
    by auto
  then show ?thesis
    using assms(1) by (simp add: extract_from_def scan_files_tally Let_def)
qed

subsection \<open>The example directories\<close>

lemmas example_defs = example_track_def example_track_no_duration_def example_doc_def
  example_record_def example_dir_def example_dir_partial_def
  example_dir_first_incomplete_def

lemmas extract_defs = extract_unique_tracks_from_mpd_def extract_from_def slice_files_def
  glob_match_def process_file_body_def process_playlist_def process_track_def build_record_def
  counter_incr_def counter_get_def initial_state_def Let_def

lemmas wf_defs = clean_or_unreadable_def well_formed_file_def well_formed_doc_def
  well_formed_playlist_def complete_track_def read_track_def build_record_def
  entries_of_def file_entries_def doc_tracks_def playlist_tracks_def List.map_filter_simps

lemma example_dir_files: "slice_files example_dir None = 
   [(''mpd.slice.0-999.json'', Document (example_doc [example_track ''u1'' ''A''])),
    (''mpd.slice.1000-1999.json'', Document (example_doc [example_track ''u2'' ''B'', example_track ''u1'' ''C''])),
    (''mpd.slice.2000-2999.json'', Unreadable)]"
  by (simp add: slice_files_def glob_match_def example_dir_def)

lemma example_dir_clean: "list_all clean_or_unreadable (slice_files example_dir None)"
  unfolding example_dir_files by (simp add: wf_defs example_defs)

lemma example_dir_entries: "entries_of (slice_files example_dir None) =
   [(JStr ''u1'', example_record ''u1'' ''A''), (JStr ''u2'', example_record ''u2'' ''B''),
    (JStr ''u1'', example_record ''u1'' ''C'')]"
  unfolding example_dir_files by (simp add: wf_defs example_defs)

lemma example_dir_partial_files:
  "slice_files example_dir_partial None = example_dir_partial"
  by (simp add: slice_files_def glob_match_def example_dir_partial_def)

lemma example_dir_partial_scan:
  "scan_files initial_state example_dir_partial =
     (\<lparr>unique_tracks = [(JStr ''u1'', example_record ''u1'' ''A''),
                        (JStr ''u2'', example_record ''u2'' ''B'')],
       track_frequency = [(JStr ''u1'', 1), (JStr ''u2'', 1), (JStr ''u3'', 1)],
       total_tracks_processed = 3\<rparr>,
      [''mpd.slice.1000-1999.json''])"
  by (simp add: extract_defs example_defs)

lemma example_dir_partial_entries:
  "entries_of example_dir_partial = [(JStr ''u1'', example_record ''u1'' ''A'')]"
  by (simp add: wf_defs example_defs)

subsection \<open>Counts of the returned mapping and table\<close>

text \<open>
  C7, as stated: for all input directories extraction returns a mapping whose size is the
  number of distinct identifiers across all track entries of the successfully parsed
  files, and a table whose counts sum to the number of those entries. It fails twice.
  On an empty directory nothing is returned: the average of line 74 divides by zero.
  On \<open>example_dir_partial\<close> the second slice raises at its second entry and is logged,
  yet its first entry is in the mapping and its first two are in the table: the
  mapping holds 2 identifiers and the counts sum to 3, where the one slice that was
  processed without a fault holds 1 entry.
\<close>

theorem extract_counts_counterexample:
  "extract_unique_tracks_from_mpd [] None = Inl ZeroDivisionError \<and>
   map_sum id summary (extract_unique_tracks_from_mpd example_dir_partial None) = Inr (2, 3) \<and>
   snd (scan_files initial_state (slice_files example_dir_partial None)) =
     [''mpd.slice.1000-1999.json''] \<and>
   length (entries_of (slice_files example_dir_partial None)) = 1"
proof -
  have "extract_unique_tracks_from_mpd [] None = Inl ZeroDivisionError"
    by (simp add: extract_defs)
  moreover have "map_sum id summary (extract_unique_tracks_from_mpd example_dir_partial None) =
      Inr (2, 3)"
    by (simp add: extract_unique_tracks_from_mpd_def extract_from_def example_dir_partial_files
        example_dir_partial_scan summary_def)
  ultimately show ?thesis
    by (simp add: example_dir_partial_files example_dir_partial_scan example_dir_partial_entries)
qed

text \<open>
  C7, amended: when every scanned file is either undecodable or well formed, and the
  well-formed ones hold at least one track entry, extraction returns a mapping whose
  size is the number of distinct identifiers across the track entries of the
  well-formed files, and a table whose counts sum to the number of those entries.
\<close>

theorem extract_counts:
  assumes "list_all clean_or_unreadable (slice_files data_dir max_files)"
    and "entries_of (slice_files data_dir max_files) \<noteq> []"
  shows "\<exists>u fr. extract_unique_tracks_from_mpd data_dir max_files = Inr (u, fr) \<and>
           length u = card (fst ` set (entries_of (slice_files data_dir max_files))) \<and>
           sum_list (map snd fr) = length (entries_of (slice_files data_dir max_files))"
proof -
  let ?es = "entries_of (slice_files data_dir max_files)"
  let ?st = "tally initial_state ?es"
  have d: "distinct (map fst (unique_tracks ?st))"
    by (rule tally_unique_distinct) (simp add: initial_state_def)
  have "length (unique_tracks ?st) = card (set (map fst (unique_tracks ?st)))"
    using distinct_card [OF d] by simp
  also have "\<dots> = card (fst ` set ?es)"
    by (simp add: tally_unique_keys initial_state_def)
  finally have len: "length (unique_tracks ?st) = card (fst ` set ?es)" .
  have sum: "sum_list (map snd (track_frequency ?st)) = length ?es"
    by (simp add: tally_frequency_sum initial_state_def)
  show ?thesis
    using extract_from_clean [OF assms] len sum
    by (simp add: extract_unique_tracks_from_mpd_def)
qed

theorem extract_counts_witness:
  "\<exists>u fr. extract_unique_tracks_from_mpd example_dir None = Inr (u, fr) \<and>
      length u = 2 \<and> sum_list (map snd fr) = 3"
proof -
  have c: "card (fst ` set (entries_of (slice_files example_dir None))) = 2"
    by (simp add: example_dir_entries card_insert_if)
  show ?thesis
    using extract_counts [OF example_dir_clean] c
    by (simp add: example_dir_entries numeral_3_eq_3)
qed

subsection \<open>Files that fail\<close>

text \<open>
  C8, as stated: a file that fails is skipped and the results equal those computed from
  the well-formed files alone. In \<open>example_dir_partial\<close> the second slice fails and is
  logged, but the results are not those of the first slice alone: they keep what the
  failing slice had counted before its fault.
\<close>

theorem unreadable_files_skipped_counterexample:
  "snd (scan_files initial_state (slice_files example_dir_partial None)) =
     [''mpd.slice.1000-1999.json''] \<and>
   filter well_formed_file (slice_files example_dir_partial None) =
     [(''mpd.slice.0-999.json'', Document (example_doc [example_track ''u1'' ''A'']))] \<and>
   extract_unique_tracks_from_mpd example_dir_partial None =
     Inr ([(JStr ''u1'', example_record ''u1'' ''A''), (JStr ''u2'', example_record ''u2'' ''B'')],
          [(JStr ''u1'', 1), (JStr ''u2'', 1), (JStr ''u3'', 1)]) \<and>
   extract_from (filter well_formed_file (slice_files example_dir_partial None)) =
     Inr ([(JStr ''u1'', example_record ''u1'' ''A'')], [(JStr ''u1'', 1)])"
proof -
  have wf: "filter well_formed_file example_dir_partial =
      [(''mpd.slice.0-999.json'', Document (example_doc [example_track ''u1'' ''A'']))]"
    by (simp add: wf_defs example_defs)
  have "extract_from [(''mpd.slice.0-999.json'', Document (example_doc [example_track ''u1'' ''A'']))] =
      Inr ([(JStr ''u1'', example_record ''u1'' ''A'')], [(JStr ''u1'', 1)])"
    by (simp add: extract_defs example_defs)
  then show ?thesis
    by (simp add: example_dir_partial_files example_dir_partial_scan wf
        extract_unique_tracks_from_mpd_def extract_from_def)
qed

text \<open>
  C8, amended: a file that cannot be opened or decoded is logged and skipped without
  ending the scan, and the outcome of extraction equals the one computed from the other
  files alone; when all the other files are well formed, that is the outcome computed
  from the well-formed files alone. A file that is decoded and then raises while it is
  walked is logged as well and does not end the scan: the scan goes on with the files
  after it from the state the fault left, and what that state holds (the entries counted
  and the records stored before the fault) is kept to the end.
\<close>

theorem unreadable_files_skipped:
  "extract_unique_tracks_from_mpd data_dir max_files =
     extract_from (filter (\<lambda>f. snd f \<noteq> Unreadable) (slice_files data_dir max_files)) \<and>
   (\<forall>f \<in> set (slice_files data_dir max_files). snd f = Unreadable \<longrightarrow>
      fst f \<in> set (snd (scan_files initial_state (slice_files data_dir max_files)))) \<and>
   (list_all clean_or_unreadable (slice_files data_dir max_files) \<longrightarrow>
      extract_unique_tracks_from_mpd data_dir max_files =
        extract_from (filter well_formed_file (slice_files data_dir max_files))) \<and>
   (\<forall>pre f post. slice_files data_dir max_files = pre @ f # post \<longrightarrow>
      fst (scan_files initial_state (slice_files data_dir max_files)) =
        fst (scan_files (fst (file_outcome pre f)) post) \<and>
      (snd (file_outcome pre f) \<noteq> None \<longrightarrow>
         fst f \<in> set (snd (scan_files initial_state (slice_files data_dir max_files)))) \<and>
      keeps (fst (file_outcome pre f))
        (fst (scan_files initial_state (slice_files data_dir max_files))))"
proof -
  let ?fs = "slice_files data_dir max_files"
  have a: "extract_unique_tracks_from_mpd data_dir max_files =
             extract_from (filter (\<lambda>f. snd f \<noteq> Unreadable) ?fs)"
    by (simp add: extract_unique_tracks_from_mpd_def extract_from_def scan_files_skip_unreadable)
  have "filter (\<lambda>f. snd f \<noteq> Unreadable) fs = filter well_formed_file fs"
    if "list_all clean_or_unreadable fs" for fs
    using that
    by (induction fs) (auto simp: clean_or_unreadable_def well_formed_file_def)
  with a have b: "list_all clean_or_unreadable ?fs \<longrightarrow>
      extract_unique_tracks_from_mpd data_dir max_files = extract_from (filter well_formed_file ?fs)"
    by simp
  have c: "\<forall>f \<in> set ?fs. snd f = Unreadable \<longrightarrow> fst f \<in> set (snd (scan_files initial_state ?fs))"
    by (auto simp: scan_files_logs_unreadable)
  have d: "\<forall>pre f post. ?fs = pre @ f # post \<longrightarrow>
      fst (scan_files initial_state ?fs) = fst (scan_files (fst (file_outcome pre f)) post) \<and>
      (snd (file_outcome pre f) \<noteq> None \<longrightarrow> fst f \<in> set (snd (scan_files initial_state ?fs))) \<and>
      keeps (fst (file_outcome pre f)) (fst (scan_files initial_state ?fs))"
  proof (intro allI impI)
    fix pre f post
    assume eq: "?fs = pre @ f # post"
    show "fst (scan_files initial_state ?fs) = fst (scan_files (fst (file_outcome pre f)) post) \<and>
      (snd (file_outcome pre f) \<noteq> None \<longrightarrow> fst f \<in> set (snd (scan_files initial_state ?fs))) \<and>
      keeps (fst (file_outcome pre f)) (fst (scan_files initial_state ?fs))"
      unfolding eq by (rule scan_files_at_file)
  qed
  from a b c d show ?thesis by blast
qed

theorem unreadable_files_skipped_witness:
  "extract_unique_tracks_from_mpd example_dir None =
     extract_from [(''mpd.slice.0-999.json'', Document (example_doc [example_track ''u1'' ''A''])),
                   (''mpd.slice.1000-1999.json'',
                    Document (example_doc [example_track ''u2'' ''B'', example_track ''u1'' ''C'']))] \<and>
   ''mpd.slice.2000-2999.json'' \<in> set (snd (scan_files initial_state (slice_files example_dir None))) \<and>
   ''mpd.slice.1000-1999.json'' \<in>
     set (snd (scan_files initial_state (slice_files example_dir_partial None))) \<and>
   1 \<le> counter_get
     (track_frequency (fst (scan_files initial_state (slice_files example_dir_partial None))))
     (JStr ''u3'')"
proof -
  let ?pre = "[(''mpd.slice.0-999.json'', Document (example_doc [example_track ''u1'' ''A'']))]"
  let ?f = "(''mpd.slice.1000-1999.json'',
       Document (example_doc [example_track ''u2'' ''B'', example_track_no_duration ''u3'' ''C'',
                              example_track ''u4'' ''D'']))"
  have split: "slice_files example_dir_partial None = ?pre @ ?f # []"
    unfolding example_dir_partial_files by (simp add: example_dir_partial_def)
  have out: "file_outcome ?pre ?f =
      (\<lparr>unique_tracks = [(JStr ''u1'', example_record ''u1'' ''A''),
                         (JStr ''u2'', example_record ''u2'' ''B'')],
        track_frequency = [(JStr ''u1'', 1), (JStr ''u2'', 1), (JStr ''u3'', 1)],
        total_tracks_processed = 3\<rparr>, Some KeyError)"
    by (simp add: file_outcome_def extract_defs example_defs)
  have first: "extract_unique_tracks_from_mpd example_dir None =
     extract_from [(''mpd.slice.0-999.json'', Document (example_doc [example_track ''u1'' ''A''])),
                   (''mpd.slice.1000-1999.json'',
                    Document (example_doc [example_track ''u2'' ''B'', example_track ''u1'' ''C'']))] \<and>
   ''mpd.slice.2000-2999.json'' \<in> set (snd (scan_files initial_state (slice_files example_dir None)))"
    using unreadable_files_skipped [of example_dir None] example_dir_clean
    by (simp add: example_dir_files)
  have "\<forall>pre f post. slice_files example_dir_partial None = pre @ f # post \<longrightarrow>
      fst (scan_files initial_state (slice_files example_dir_partial None)) =
        fst (scan_files (fst (file_outcome pre f)) post) \<and>
      (snd (file_outcome pre f) \<noteq> None \<longrightarrow>
         fst f \<in> set (snd (scan_files initial_state (slice_files example_dir_partial None)))) \<and>
      keeps (fst (file_outcome pre f))
        (fst (scan_files initial_state (slice_files example_dir_partial None)))"
    using unreadable_files_skipped [of example_dir_partial None] by blast
  with split have
    "(snd (file_outcome ?pre ?f) \<noteq> None \<longrightarrow>
         fst ?f \<in> set (snd (scan_files initial_state (slice_files example_dir_partial None)))) \<and>
      keeps (fst (file_outcome ?pre ?f))
        (fst (scan_files initial_state (slice_files example_dir_partial None)))"
    by blast
  then have "''mpd.slice.1000-1999.json'' \<in>
       set (snd (scan_files initial_state (slice_files example_dir_partial None))) \<and>
     1 \<le> counter_get
       (track_frequency (fst (scan_files initial_state (slice_files example_dir_partial None))))
       (JStr ''u3'')"
    unfolding out keeps_def
    by (auto dest!: spec [of _ "JStr ''u3''"] simp: counter_get_def)
  with first show ?thesis by blast
qed

subsection \<open>The first occurrence supplies the record\<close>

text \<open>
  C10, as stated: the record stored under an identifier carries the fields of its first
  occurrence in scan order. In \<open>example_dir_first_incomplete\<close> the first occurrence of
  \<open>u1\<close> (display name \<open>A\<close>, in the slice scanned first) lacks \<open>duration_ms\<close>: it is
  counted, no record is stored, and the second occurrence (display name \<open>B\<close>) supplies
  the record.
\<close>

theorem first_occurrence_kept_counterexample:
  "slice_files example_dir_first_incomplete None =
     [(''mpd.slice.0-999.json'', Document (example_doc [example_track_no_duration ''u1'' ''A''])),
      (''mpd.slice.1000-1999.json'', Document (example_doc [example_track ''u1'' ''B'']))] \<and>
   getitem (example_track_no_duration ''u1'' ''A'') ''track_name'' = Inr (JStr ''A'') \<and>
   extract_unique_tracks_from_mpd example_dir_first_incomplete None =
     Inr ([(JStr ''u1'', example_record ''u1'' ''B'')], [(JStr ''u1'', 2)])"
  by (simp add: extract_defs example_defs)

text \<open>
  C10, amended: when every scanned file is either undecodable or well formed (so that
  every track entry carries all seven fields), the record stored under an identifier is
  the one built from its first occurrence in sorted-filename scan order, and its
  frequency is the number of its occurrences: later occurrences only count.
\<close>

theorem first_occurrence_kept:
  assumes "list_all clean_or_unreadable (slice_files data_dir max_files)"
    and "find (\<lambda>e. fst e = k) (entries_of (slice_files data_dir max_files)) = Some e"
  shows "\<exists>u fr. extract_unique_tracks_from_mpd data_dir max_files = Inr (u, fr) \<and>
           map_of u k = Some (snd e) \<and>
           map_of fr k =
             Some (length (filter (\<lambda>e. fst e = k) (entries_of (slice_files data_dir max_files))))"
proof -
  let ?es = "entries_of (slice_files data_dir max_files)"
  let ?st = "tally initial_state ?es"
  from assms(2) have ne: "?es \<noteq> []" by auto
  from assms(2) have kin: "k \<in> fst ` set ?es"
    by (auto simp: find_Some_iff)
  have u: "map_of (unique_tracks ?st) k = Some (snd e)"
    using map_of_first_occurrence [OF assms(2)]
    by (simp add: tally_unique_map initial_state_def)
  have "k \<in> fst ` set (track_frequency ?st)"
    using kin by (simp add: tally_frequency_keys)
  then obtain n where n: "map_of (track_frequency ?st) k = Some n"
    by (metis domD dom_map_of_conv_image_fst)
  then have "n = counter_get (track_frequency ?st) k"
    by (simp add: counter_get_def)
  also have "\<dots> = counter_get (track_frequency initial_state) k +
      length (filter (\<lambda>e. fst e = k) ?es)"
    by (rule tally_counter_get)
  finally have "n = length (filter (\<lambda>e. fst e = k) ?es)"
    by (simp add: initial_state_def counter_get_def)
  with n u show ?thesis
    using extract_from_clean [OF assms(1) ne]
    by (simp add: extract_unique_tracks_from_mpd_def)
qed

theorem first_occurrence_kept_witness:
  "\<exists>u fr. extract_unique_tracks_from_mpd example_dir None = Inr (u, fr) \<and>
      map_of u (JStr ''u1'') = Some (example_record ''u1'' ''A'') \<and>
      map_of fr (JStr ''u1'') = Some 2"
  using first_occurrence_kept [OF example_dir_clean,
      of "JStr ''u1''" "(JStr ''u1'', example_record ''u1'' ''A'')"]
  by (simp add: example_dir_entries numeral_2_eq_2)

section \<open>Properties of the catalog client\<close>

subsection \<open>Identifier normalisation\<close>

lemma split_on_nonempty [simp]: "split_on sep s \<noteq> []"
  by (induction s) (auto split: list.splits)

lemma split_on_no_sep: "sep \<notin> set s \<Longrightarrow> split_on sep s = [s]"
  by (induction s) auto

lemma length_split_on:
  "length (split_on sep s) = Suc (length (filter (\<lambda>c. c = sep) s))"
  by (induction s) (auto split: list.splits)

lemma last_split_on_append:
  "sep \<notin> set rest \<Longrightarrow> last (split_on sep (pre @ sep # rest)) = rest"
proof (induction pre)
  case Nil
  then show ?case by (simp add: split_on_no_sep)
next
  case (Cons c pre)
  obtain w ws where ws: "split_on sep (pre @ sep # rest) = w # ws"
    by (cases "split_on sep (pre @ sep # rest)") auto
  have "2 \<le> length (split_on sep (pre @ sep # rest))"
    by (simp add: length_split_on)
  with ws have "ws \<noteq> []" by auto
  with Cons ws show ?case by auto
qed

lemma extract_track_id_prefixed:
  assumes "CHR '':'' \<notin> set rest"
  shows "extract_track_id_from_uri (''spotify:track:'' @ rest) = rest"
proof -
  have "last (split_on CHR '':'' (''spotify:track'' @ CHR '':'' # rest)) = rest"
    using assms by (rule last_split_on_append)
  then show ?thesis
    by (simp add: extract_track_id_from_uri_def startswith_def)
qed

lemma last_split_on: "last (split_on sep s) = text_after_last sep s"
proof (cases "sep \<in> set s")
  case False
  then have tw: "takeWhile (\<lambda>c. c \<noteq> sep) (rev s) = rev s"
    by (auto simp: takeWhile_eq_all_conv)
  have "text_after_last sep s = s"
    by (simp only: text_after_last_def tw rev_rev_ident)
  with False show ?thesis
    by (simp add: split_on_no_sep)
next
  case True
  then obtain pre rest where s: "s = pre @ sep # rest" and r: "sep \<notin> set rest"
    by (auto dest: split_list_last)
  have "takeWhile (\<lambda>c. c \<noteq> sep) (rev rest @ sep # rev pre) = rev rest"
    using r by (auto simp: takeWhile_tail takeWhile_eq_all_conv)
  then have "text_after_last sep s = rest"
    by (simp add: text_after_last_def s)
  with r show ?thesis
    by (simp add: s last_split_on_append)
qed

lemma extract_track_id_last_colon:
  "extract_track_id_from_uri uri =
     (if startswith uri ''spotify:track:'' then text_after_last CHR '':'' uri else uri)"
  by (simp add: extract_track_id_from_uri_def last_split_on)

lemma extract_track_id_bare:
  "\<not> startswith uri ''spotify:track:'' \<Longrightarrow> extract_track_id_from_uri uri = uri"
  by (simp add: extract_track_id_from_uri_def)

subsection \<open>Results of a lookup\<close>

lemma map_results_keys:
  "map_results uris slots i acc = Inr result \<Longrightarrow>
   fst ` set result = fst ` set acc \<union> set (take (length slots) (drop i uris)) \<and>
   length slots \<le> length uris - i"
proof (induction uris slots i acc rule: map_results.induct)
  case (1 track_uris i result)
  then show ?case by simp
next
  case (2 track_uris features rest i result')
  from "2.prems" have i: "i < length track_uris"
    by (auto split: if_splits)
  have dr: "drop i track_uris = track_uris ! i # drop (Suc i) track_uris"
    using i by (simp add: Cons_nth_drop_Suc)
  from "2.prems" i obtain v where
    rec: "map_results track_uris rest (i + 1) (AList.update (track_uris ! i) v result') = Inr result"
    and ih: "fst ` set result =
        fst ` set (AList.update (track_uris ! i) v result') \<union>
        set (take (length rest) (drop (i + 1) track_uris)) \<and>
        length rest \<le> length track_uris - (i + 1)"
    using "2.IH" by (auto split: if_splits option.splits sum.splits)
  from ih i show ?case
    by (auto simp: dr dom_update)
qed

lemma map_results_distinct:
  "map_results uris slots i acc = Inr result \<Longrightarrow> distinct (map fst acc) \<Longrightarrow>
   distinct (map fst result)"
proof (induction uris slots i acc rule: map_results.induct)
  case (1 track_uris i result)
  then show ?case by simp
next
  case (2 track_uris features rest i result')
  show ?case
    using "2.prems" "2.IH"
    by (auto simp: distinct_update split: if_splits option.splits sum.splits)
qed


lemma pick_fields_complete:
  "list_all (\<lambda>k. map_of d k \<noteq> None) ks \<Longrightarrow>
   pick_fields ks d = Inr (map (\<lambda>k. (k, the (map_of d k))) ks)"
  by (induction ks) auto

lemma map_results_ok:
  "list_all slot_ok slots \<Longrightarrow> i + length slots \<le> length uris \<Longrightarrow>
   map_results uris slots i acc =
     Inr (dict_update acc (zip (drop i uris) (map slot_value slots)))"
proof (induction uris slots i acc rule: map_results.induct)
  case (1 track_uris i result)
  then show ?case by (simp add: dict_update_def)
next
  case (2 track_uris features rest i result')
  from "2.prems" have i: "i < length track_uris" by simp
  have dr: "drop i track_uris = track_uris ! i # drop (Suc i) track_uris"
    using i by (simp add: Cons_nth_drop_Suc)
  from "2.prems" have ok: "slot_ok features" and rest: "list_all slot_ok rest"
    and len: "(i + 1) + length rest \<le> length track_uris"
    by simp_all
  show ?case
  proof (cases features)
    case None
    then show ?thesis
      using "2.IH"(1) [OF _ None rest len] i
      by (simp add: dr dict_update_def slot_value_def)
  next
    case (Some d)
    show ?thesis
    proof (cases "d = []")
      case True
      then show ?thesis
        using "2.IH"(2) [OF _ Some True rest len] i Some
        by (simp add: dr dict_update_def slot_value_def)
    next
      case False
      with ok Some have fr: "feature_record d = Inr (map (\<lambda>k. (k, the (map_of d k))) feature_keys)"
        by (simp add: slot_ok_def feature_record_def pick_fields_complete)
      show ?thesis
        using "2.IH"(3) [OF _ Some False fr rest len] i Some False fr
        by (simp add: dr dict_update_def slot_value_def)
    qed
  qed
qed

lemma dict_update_keys: "fst ` set (dict_update d e) = fst ` set d \<union> fst ` set e"
  unfolding dict_update_def by (induction e arbitrary: d) (auto simp: dom_update)

lemma dict_update_distinct:
  "distinct (map fst d) \<Longrightarrow> distinct (map fst (dict_update d e))"
  unfolding dict_update_def by (induction e arbitrary: d) (auto simp: distinct_update)

lemma dict_update_map_of:
  "distinct (map fst e) \<Longrightarrow> map_of (dict_update d e) = map_of d ++ map_of e"
  unfolding dict_update_def
proof (induction e arbitrary: d)
  case Nil
  then show ?case by simp
next
  case (Cons kv e)
  then have "fst kv \<notin> dom (map_of e)"
    by (simp add: dom_map_of_conv_image_fst)
  then have none: "map_of e (fst kv) = None" by blast
  have "map_of (fold (\<lambda>kv. AList.update (fst kv) (snd kv)) (kv # e) d) =
      (map_of d)(fst kv \<mapsto> snd kv) ++ map_of e"
    using Cons by (simp add: update_conv')
  also have "\<dots> = map_of d ++ map_of (kv # e)"
    using none by (cases kv) (auto simp: map_add_def fun_eq_iff split: option.splits)
  finally show ?case .
qed

lemma batch_result:
  assumes "snd (get_audio_features_batch audio_features track_uris) = Inr bf"
  shows "fst ` set bf \<subseteq> set track_uris \<and> distinct (map fst bf)"
proof (cases "track_uris = []")
  case True
  with assms show ?thesis by (simp add: get_audio_features_batch_def)
next
  case False
  let ?uris = "take 100 track_uris"
  have tk: "(if 100 < length track_uris then take 100 track_uris else track_uris) = ?uris"
    by simp
  show ?thesis
  proof (cases "\<exists>slots res. audio_features (map extract_track_id_from_uri ?uris) = Returns slots \<and>
      map_results ?uris slots 0 [] = Inr res")
    case True
    then obtain slots res where
      a: "audio_features (map extract_track_id_from_uri ?uris) = Returns slots"
      and r: "map_results ?uris slots 0 [] = Inr res"
      by blast
    from assms False a r have "bf = res"
      by (simp add: get_audio_features_batch_def tk Let_def)
    moreover have "fst ` set res = set (take (length slots) ?uris)"
      using map_results_keys [OF r] by simp
    then have "fst ` set res \<subseteq> set track_uris"
      using set_take_subset [of "length slots" ?uris] set_take_subset [of 100 track_uris]
      by blast
    moreover have "distinct (map fst res)"
      using map_results_distinct [OF r] by simp
    ultimately show ?thesis
      by simp
  next
    case no: False
    have "bf = []"
      using assms False no
      by (auto simp: get_audio_features_batch_def tk Let_def
          split: service_outcome.splits sum.splits if_splits)
    then show ?thesis by simp
  qed
qed


lemma dict_update_fresh:
  "distinct (map fst e) \<Longrightarrow> fst ` set d \<inter> fst ` set e = {} \<Longrightarrow> dict_update d e = d @ e"
  unfolding dict_update_def
proof (induction e arbitrary: d)
  case Nil
  then show ?case by simp
next
  case (Cons kv e)
  have app: "fst kv \<notin> fst ` set al \<Longrightarrow> AList.update (fst kv) (snd kv) al = al @ [kv]" for al
    by (induction al) auto
  from Cons.prems have "fst kv \<notin> fst ` set d" by auto
  then have u: "AList.update (fst kv) (snd kv) d = d @ [kv]" by (rule app)
  from Cons.prems have "fst ` set (d @ [kv]) \<inter> fst ` set e = {}" by auto
  with Cons u show ?case by simp
qed

lemma example_features_built: "feature_record example_features = Inr example_feature_record"
  by (simp add: feature_record_def feature_keys_def example_features_def example_feature_record_def)

lemma example_features_nonempty: "example_features \<noteq> []"
  by (simp add: example_features_def)




lemma sleep_error_examples:
  "sleep_error 1 = None"
  "sleep_error 5 = None"
  "sleep_error 60 = None"
  "sleep_error (- 1) = Some ValueError"
  "sleep_error (10 ^ 10) = Some OverflowError"
  "sleep_error 10000000000 = Some OverflowError"
  by (simp_all add: sleep_error_def sleep_limit_def)

lemma lookup_first_event:
  assumes "track_uris \<noteq> []"
  shows "\<exists>rest. fst (get_audio_features_batch audio_features track_uris) =
           RemoteCall (map extract_track_id_from_uri (take 100 track_uris)) # rest"
proof -
  have tk: "(if 100 < length track_uris then take 100 track_uris else track_uris) =
      take 100 track_uris"
    by simp
  show ?thesis
    using assms
    by (simp add: get_audio_features_batch_def tk Let_def
        split: service_outcome.splits sum.splits)
qed

lemmas lookup_defs = get_audio_features_batch_def extract_track_id_from_uri_def startswith_def
  example_features_built example_features_nonempty py_sleep_def sleep_error_examples

text \<open>
  C6, amended: an empty list is answered without a call; of every longer list, whatever
  the service does, only the first 100 identifiers are attempted, and they are what the
  one remote call is given; each is sent as the text after its last colon when it starts
  with \<open>spotify:track:\<close> (which is the identifier without the prefix whenever the rest
  holds no colon) and unchanged otherwise; and when the service answers with one
  translatable slot per identifier sent, the returned dict is the one that assigns to
  each original identifier string, in order, the record of its slot or the marker, so
  that its keys are exactly the original strings.
\<close>

theorem batch_lookup_keys:
  "get_audio_features_batch audio_features [] = ([], Inr []) \<and>
   (track_uris \<noteq> [] \<longrightarrow>
      (\<exists>rest. fst (get_audio_features_batch audio_features track_uris) =
         RemoteCall (map extract_track_id_from_uri (take 100 track_uris)) # rest)) \<and>
   (\<forall>uri. extract_track_id_from_uri uri =
      (if startswith uri ''spotify:track:'' then text_after_last CHR '':'' uri else uri)) \<and>
   (\<forall>rest. CHR '':'' \<notin> set rest \<longrightarrow>
      extract_track_id_from_uri (''spotify:track:'' @ rest) = rest) \<and>
   (track_uris \<noteq> [] \<and>
    audio_features (map extract_track_id_from_uri (take 100 track_uris)) = Returns slots \<and>
    length slots = length (take 100 track_uris) \<and> list_all slot_ok slots \<longrightarrow>
      get_audio_features_batch audio_features track_uris =
        ([RemoteCall (map extract_track_id_from_uri (take 100 track_uris))],
         Inr (dict_update [] (zip (take 100 track_uris) (map slot_value slots)))) \<and>
      fst ` set (dict_update [] (zip (take 100 track_uris) (map slot_value slots))) =
        set (take 100 track_uris) \<and>
      (distinct (take 100 track_uris) \<longrightarrow>
         dict_update [] (zip (take 100 track_uris) (map slot_value slots)) =
           zip (take 100 track_uris) (map slot_value slots)))"
proof -
  let ?uris = "take 100 track_uris"
  let ?e = "zip ?uris (map slot_value slots)"
  have tk: "(if 100 < length track_uris then take 100 track_uris else track_uris) = ?uris"
    by simp
  have z: "get_audio_features_batch audio_features [] = ([], Inr [])"
    by (simp add: get_audio_features_batch_def)
  have f: "track_uris \<noteq> [] \<longrightarrow>
      (\<exists>rest. fst (get_audio_features_batch audio_features track_uris) =
         RemoteCall (map extract_track_id_from_uri ?uris) # rest)"
    using lookup_first_event by blast
  have g: "\<forall>uri. extract_track_id_from_uri uri =
      (if startswith uri ''spotify:track:'' then text_after_last CHR '':'' uri else uri)"
    using extract_track_id_last_colon by blast
  have d: "\<forall>rest. CHR '':'' \<notin> set rest \<longrightarrow>
      extract_track_id_from_uri (''spotify:track:'' @ rest) = rest"
    using extract_track_id_prefixed by blast
  have h: "get_audio_features_batch audio_features track_uris =
        ([RemoteCall (map extract_track_id_from_uri ?uris)], Inr (dict_update [] ?e)) \<and>
      fst ` set (dict_update [] ?e) = set ?uris \<and>
      (distinct ?uris \<longrightarrow> dict_update [] ?e = ?e)"
    if ne: "track_uris \<noteq> []"
      and ans: "audio_features (map extract_track_id_from_uri ?uris) = Returns slots"
      and len: "length slots = length ?uris" and ok: "list_all slot_ok slots"
  proof -
    have "map_results ?uris slots 0 [] = Inr (dict_update [] (zip (drop 0 ?uris) (map slot_value slots)))"
      by (rule map_results_ok) (use len ok in simp_all)
    then have a: "get_audio_features_batch audio_features track_uris =
        ([RemoteCall (map extract_track_id_from_uri ?uris)], Inr (dict_update [] ?e))"
      using ne ans by (simp add: get_audio_features_batch_def tk Let_def)
    have fe: "map fst ?e = ?uris"
      using len by simp
    have b: "fst ` set (dict_update [] ?e) = set ?uris"
      using arg_cong [OF fe, of set] by (simp add: dict_update_keys)
    have c: "distinct ?uris \<longrightarrow> dict_update [] ?e = ?e"
      using dict_update_fresh [of ?e "[]"] fe by simp
    from a b c show ?thesis by blast
  qed
  from z f g d h show ?thesis
    by blast
qed

theorem batch_lookup_keys_witness:
  "get_audio_features_batch example_service [''spotify:track:abc'', ''x''] =
     ([RemoteCall [''abc'', ''x'']],
      Inr [(''spotify:track:abc'', Some example_feature_record), (''x'', None)]) \<and>
   extract_track_id_from_uri ''spotify:track:abc'' = ''abc'' \<and>
   extract_track_id_from_uri ''x'' = ''x''"
proof -
  have ids: "map extract_track_id_from_uri (take 100 [''spotify:track:abc'', ''x'']) = [''abc'', ''x'']"
    by (simp add: extract_track_id_from_uri_def startswith_def)
  have sv: "example_service [''abc'', ''x''] = Returns [Some example_features, None]"
    by (simp add: example_service_def)
  have ok: "list_all slot_ok [Some example_features, None]"
    by (simp add: slot_ok_def example_features_def feature_keys_def)
  have val: "map slot_value [Some example_features, None] = [Some example_feature_record, None]"
    by (simp add: slot_value_def example_features_def example_feature_record_def feature_keys_def)
  have ne: "[''spotify:track:abc'', ''x''] \<noteq> []"
    by simp
  have ans: "example_service (map extract_track_id_from_uri (take 100 [''spotify:track:abc'', ''x''])) =
      Returns [Some example_features, None]"
    by (simp only: ids sv)
  have len: "length [Some example_features, None] = length (take 100 [''spotify:track:abc'', ''x''])"
    by simp
  have "get_audio_features_batch example_service [''spotify:track:abc'', ''x''] =
      ([RemoteCall (map extract_track_id_from_uri (take 100 [''spotify:track:abc'', ''x'']))],
       Inr (dict_update [] (zip (take 100 [''spotify:track:abc'', ''x''])
         (map slot_value [Some example_features, None]))))"
    using batch_lookup_keys [of example_service "[''spotify:track:abc'', ''x'']"
        "[Some example_features, None]"] ne ans len ok
    by blast
  then have "get_audio_features_batch example_service [''spotify:track:abc'', ''x''] =
      ([RemoteCall [''abc'', ''x'']],
       Inr (dict_update [] (zip [''spotify:track:abc'', ''x''] [Some example_feature_record, None])))"
    by (simp only: ids val) simp
  then show ?thesis
    by (simp add: dict_update_def extract_track_id_from_uri_def startswith_def)
qed

text \<open>
  C6, as stated: each identifier is stripped of the prefix, and the keys of the result
  are exactly the identifiers passed in. \<open>spotify:track:a:b\<close> is sent as \<open>b\<close>, not
  as \<open>a:b\<close>; and when the service answers with one slot for two identifiers, the
  second identifier is no key of the result.
\<close>

theorem batch_lookup_keys_counterexample:
  "extract_track_id_from_uri ''spotify:track:a:b'' = ''b'' \<and>
   get_audio_features_batch (\<lambda>ids. Returns [Some example_features])
       [''spotify:track:abc'', ''x''] =
     ([RemoteCall [''abc'', ''x'']], Inr [(''spotify:track:abc'', Some example_feature_record)])"
  by (simp add: lookup_defs)







section \<open>Properties of the enrichment orchestrator\<close>

subsection \<open>The batch starts\<close>

lemma py_range_simps':
  "0 < step \<Longrightarrow> i < n \<Longrightarrow> py_range i n step = i # py_range (i + step) n step"
  "\<not> (0 < step \<and> i < n) \<Longrightarrow> py_range i n step = []"
  by (simp_all del: py_range.simps add: py_range.simps [of i n step])

declare py_range.simps [simp del]

lemma py_range_length:
  "0 < step \<Longrightarrow> length (py_range i n step) = nat ((n - i + step - 1) div step)"
proof (induction i n step rule: py_range.induct)
  case (1 i n step)
  show ?case
  proof (cases "i < n")
    case True
    have e1: "n - i + step - 1 = (n - i - 1) + step" by simp
    have e2: "n - (i + step) + step - 1 = n - i - 1" by simp
    have d: "(n - i + step - 1) div step = (n - i - 1) div step + 1"
      using "1.prems" unfolding e1 by (subst div_add_self2) simp_all
    have nn: "0 \<le> (n - i - 1) div step"
      using True "1.prems" by (simp add: pos_imp_zdiv_nonneg_iff)
    have "length (py_range i n step) = Suc (length (py_range (i + step) n step))"
      using True "1.prems" by (simp add: py_range_simps')
    also have "\<dots> = Suc (nat ((n - i - 1) div step))"
      using "1.IH" "1.prems" True by (simp only: e2)
    also have "\<dots> = nat ((n - i + step - 1) div step)"
      using nn unfolding d by (simp add: nat_add_distrib)
    finally show ?thesis .
  next
    case False
    have "(n - i + step - 1) div step \<le> 0"
    proof (cases "0 \<le> n - i + step - 1")
      case True
      moreover from False have "n - i + step - 1 < step"
        by simp
      ultimately have "(n - i + step - 1) div step = 0"
        by (rule div_pos_pos_trivial)
      then show ?thesis by simp
    next
      case neg: False
      then have "n - i + step - 1 < 0"
        by simp
      then have "(n - i + step - 1) div step < 0"
        using "1.prems" by (rule div_neg_pos_less0)
      then show ?thesis by simp
    qed
    with False show ?thesis
      by (simp add: py_range_simps')
  qed
qed

lemma py_range_nth:
  "0 < step \<Longrightarrow> j < length (py_range i n step) \<Longrightarrow> py_range i n step ! j = i + int j * step"
proof (induction i n step arbitrary: j rule: py_range.induct)
  case (1 i n step)
  show ?case
  proof (cases "i < n")
    case True
    have d: "py_range i n step = i # py_range (i + step) n step"
      using True "1.prems"(1) by (rule py_range_simps'(1) [rotated])
    show ?thesis
    proof (cases j)
      case 0
      then show ?thesis by (simp only: d) simp
    next
      case (Suc j')
      from "1.prems"(2) have "j' < length (py_range (i + step) n step)"
        unfolding d Suc by simp
      with "1.IH" True "1.prems"(1)
      have "py_range (i + step) n step ! j' = i + step + int j' * step"
        by blast
      then have "py_range i n step ! j = i + step + int j' * step"
        unfolding d Suc by simp
      also have "\<dots> = i + int j * step"
        unfolding Suc by (simp add: algebra_simps)
      finally show ?thesis .
    qed
  next
    case False
    then have "py_range i n step = []"
      by (simp add: py_range_simps'(2))
    with "1.prems" show ?thesis by simp
  qed
qed

lemma py_range_nonneg: "0 \<le> i \<Longrightarrow> k \<in> set (py_range i n step) \<Longrightarrow> 0 \<le> k"
proof (induction i n step rule: py_range.induct)
  case (1 i n step)
  then show ?case
    by (cases "0 < step \<and> i < n") (auto simp: py_range_simps')
qed

lemma chunks_concat:
  "0 < step \<Longrightarrow> 0 \<le> i \<Longrightarrow>
   concat (map (\<lambda>k. take (nat step) (drop (nat k) xs)) (py_range i (int (length xs)) step)) =
     drop (nat i) xs"
proof (induction i "int (length xs)" step rule: py_range.induct)
  case (1 i step)
  show ?case
  proof (cases "i < int (length xs)")
    case True
    have a: "drop (nat (i + step)) xs = drop (nat step) (drop (nat i) xs)"
      using "1.prems" by (simp add: nat_add_distrib add.commute)
    have b: "take (nat step) (drop (nat i) xs) @ drop (nat step) (drop (nat i) xs) =
        drop (nat i) xs"
      by (rule append_take_drop_id)
    have c: "concat (map (\<lambda>k. take (nat step) (drop (nat k) xs))
        (py_range (i + step) (int (length xs)) step)) = drop (nat (i + step)) xs"
      using "1.hyps" "1.prems" True by simp
    have d: "py_range i (int (length xs)) step = i # py_range (i + step) (int (length xs)) step"
      using "1.prems" True by (simp add: py_range_simps')
    show ?thesis
      by (simp only: d list.map concat.simps c a b)
  next
    case False
    with "1.prems" show ?thesis by (simp add: py_range_simps')
  qed
qed

subsection \<open>One round of the batch loop\<close>

lemma batch_calls_append: "batch_calls (xs @ ys) = batch_calls xs @ batch_calls ys"
  by (induction xs rule: batch_calls.induct) simp_all

lemma lookup_no_batch_calls:
  "batch_calls (fst (get_audio_features_batch audio_features track_uris)) = []"
  by (auto simp: get_audio_features_batch_def Let_def py_sleep_def
      split: service_outcome.splits sum.splits option.splits)

lemma save_no_batch_calls [simp]: "batch_calls (save_features_to_file features filename) = []"
  by (simp add: save_features_to_file_def)

lemma dict_update_Nil [simp]: "dict_update d [] = d"
  by (simp add: dict_update_def)

lemma process_batch_calls:
  "batch_calls (trace (process_batch sp track_uris output_file batch_size delay i st)) =
     batch_calls (trace st) @ [take (nat batch_size) (drop (nat i) track_uris)]"
  by (auto simp: process_batch_def Let_def on_batch_error_def py_sleep_def batch_calls_append
      lookup_no_batch_calls split: sum.splits option.splits)

lemma process_batch_success:
  assumes "snd (get_audio_features_batch (sp (nat (i div batch_size + 1)))
              (take (nat batch_size) (drop (nat i) track_uris))) = Inr batch_features"
    and "batch_features \<noteq> []"
  shows "all_features (process_batch sp track_uris output_file batch_size delay i st) =
           dict_update (all_features st) batch_features"
    and "failed_tracks (process_batch sp track_uris output_file batch_size delay i st) =
           failed_tracks st @
           filter (\<lambda>uri. uri \<notin> set (map fst batch_features) \<or> map_of batch_features uri = Some None)
             (take (nat batch_size) (drop (nat i) track_uris)) @
           (if sleep_error delay = None then []
            else take (nat batch_size) (drop (nat i) track_uris))"
    and "successful_batches (process_batch sp track_uris output_file batch_size delay i st) =
           successful_batches st + 1"
  using assms
  by (simp_all add: process_batch_def Let_def on_batch_error_def py_sleep_def
      split: option.splits)



subsection \<open>The whole loop\<close>

lemma fold_batch_calls:
  "batch_calls (trace (fold (process_batch sp track_uris output_file batch_size delay) ks st)) =
     batch_calls (trace st) @ map (\<lambda>k. take (nat batch_size) (drop (nat k) track_uris)) ks"
  by (induction ks arbitrary: st) (simp_all add: process_batch_calls)

lemma issued_batches_eq:
  "batch_size \<noteq> 0 \<Longrightarrow>
   issued_batches sp track_uris output_file batch_size delay =
     map (\<lambda>k. take (nat batch_size) (drop (nat k) track_uris))
       (py_range 0 (int (length track_uris)) batch_size)"
  by (simp add: issued_batches_def collect_all_audio_features_def Let_def batch_calls_append
      fold_batch_calls initial_collection_def)

text \<open>
  C2: for a list of N identifiers and a batch size B > 0, the run hands
  \<open>ceil(N/B)\<close> chunks to the batch lookup; chunk \<open>j\<close> is the contiguous slice of at
  most B identifiers that starts at position \<open>j * B\<close>; and the chunks, in order, make up
  the input list, so that every position is in exactly one chunk.
\<close>

theorem batches_partition_input:
  assumes "0 < batch_size"
  shows "length (issued_batches sp track_uris output_file batch_size delay) =
           nat ((int (length track_uris) + batch_size - 1) div batch_size) \<and>
         (\<forall>j < length (issued_batches sp track_uris output_file batch_size delay).
            issued_batches sp track_uris output_file batch_size delay ! j =
              take (nat batch_size) (drop (j * nat batch_size) track_uris)) \<and>
         (\<forall>b \<in> set (issued_batches sp track_uris output_file batch_size delay).
            length b \<le> nat batch_size) \<and>
         concat (issued_batches sp track_uris output_file batch_size delay) = track_uris"
proof -
  let ?n = "int (length track_uris)"
  let ?ks = "py_range 0 ?n batch_size"
  let ?f = "\<lambda>k. take (nat batch_size) (drop (nat k) track_uris)"
  have eq: "issued_batches sp track_uris output_file batch_size delay = map ?f ?ks"
    using assms by (simp add: issued_batches_eq)
  have len: "length (map ?f ?ks) = nat ((?n + batch_size - 1) div batch_size)"
    using py_range_length [OF assms, of 0 ?n] by simp
  have nth: "map ?f ?ks ! j = take (nat batch_size) (drop (j * nat batch_size) track_uris)"
    if "j < length (map ?f ?ks)" for j
  proof -
    from that have j: "j < length ?ks" by simp
    have "?ks ! j = int j * batch_size"
      using py_range_nth [OF assms j] by simp
    then have "nat (?ks ! j) = j * nat batch_size"
      using assms by (simp add: nat_mult_distrib)
    with j show ?thesis by simp
  qed
  have sz: "\<forall>b \<in> set (map ?f ?ks). length b \<le> nat batch_size"
    by auto
  have cc: "concat (map ?f ?ks) = track_uris"
    using chunks_concat [OF assms, of 0 track_uris] by simp
  from len nth sz cc show ?thesis
    unfolding eq by blast
qed

text \<open>
  C4: when the batch lookup returns a non-empty dict, the dict is merged into the
  accumulated features, and every identifier of the chunk that the dict lacks or maps
  to the marker is appended to the failure list, the identifiers reported as having no
  features included. That is all the round appends when the sleep of line 192 accepts
  the delay; when it raises (a negative delay, or one past the range of the clock) the
  handler of line 204 appends the whole chunk once more.
\<close>

theorem success_path_counts_unavailable:
  assumes "snd (get_audio_features_batch (sp (nat (i div batch_size + 1)))
              (take (nat batch_size) (drop (nat i) track_uris))) = Inr batch_features"
    and "batch_features \<noteq> []"
  shows "all_features (process_batch sp track_uris output_file batch_size delay i st) =
           dict_update (all_features st) batch_features \<and>
         map_of (all_features (process_batch sp track_uris output_file batch_size delay i st)) =
           map_of (all_features st) ++ map_of batch_features \<and>
         failed_tracks (process_batch sp track_uris output_file batch_size delay i st) =
           failed_tracks st @
           filter (\<lambda>uri. map_of batch_features uri = None \<or> map_of batch_features uri = Some None)
             (take (nat batch_size) (drop (nat i) track_uris)) @
           (if sleep_error delay = None then []
            else take (nat batch_size) (drop (nat i) track_uris))"
proof -
  let ?st' = "process_batch sp track_uris output_file batch_size delay i st"
  have d: "distinct (map fst batch_features)"
    using batch_result [OF assms(1)] by simp
  have a: "all_features ?st' = dict_update (all_features st) batch_features"
    using process_batch_success(1) [where sp=sp and i=i and batch_size=batch_size
        and track_uris=track_uris, OF assms] .
  have k: "(uri \<notin> set (map fst batch_features)) = (map_of batch_features uri = None)" for uri
    by (simp add: map_of_eq_None_iff)
  have f: "failed_tracks ?st' = failed_tracks st @
      filter (\<lambda>uri. map_of batch_features uri = None \<or> map_of batch_features uri = Some None)
        (take (nat batch_size) (drop (nat i) track_uris)) @
      (if sleep_error delay = None then []
       else take (nat batch_size) (drop (nat i) track_uris))"
    using process_batch_success(2) [where sp=sp and i=i and batch_size=batch_size
        and track_uris=track_uris, OF assms, of output_file delay st]
    unfolding k .
  from a f show ?thesis
    by (simp add: dict_update_map_of [OF d])
qed

subsection \<open>Where every identifier ends\<close>




lemma standing_of_trace [simp]: "standing_of (st\<lparr>trace := t\<rparr>) = standing_of st"
  by (simp add: standing_of_def fun_eq_iff)


subsection \<open>An example run\<close>

lemma example_service_flaky_simps [simp]:
  "example_service_flaky (Suc 0) = example_service"
  "k \<noteq> Suc 0 \<Longrightarrow> example_service_flaky k = (\<lambda>ids. RaisesOther)"
  by (simp_all add: example_service_flaky_def fun_eq_iff)

lemma example_lookup_first:
  "get_audio_features_batch example_service [''spotify:track:abc'', ''x''] =
     ([RemoteCall [''abc'', ''x'']],
      Inr [(''spotify:track:abc'', Some example_feature_record), (''x'', None)])"
  by (simp add: lookup_defs example_service_def)

lemma example_lookup_second:
  "get_audio_features_batch (\<lambda>ids. RaisesOther) [''y''] =
     ([RemoteCall [''y''], Log LogError], Inr [])"
  by (simp add: lookup_defs)

lemma example_starts: "py_range 0 3 2 = [0, 2]"
  by (simp add: py_range_simps')

lemma example_first_batch:
  "process_batch example_service_flaky [''spotify:track:abc'', ''x'', ''y''] ''out/features.json'' 2 1
       0 initial_collection =
     \<lparr>all_features = [(''spotify:track:abc'', Some example_feature_record), (''x'', None)],
      failed_tracks = [''x''], successful_batches = Suc 0,
      trace = [BatchCall [''spotify:track:abc'', ''x''], RemoteCall [''abc'', ''x''], Sleep 1]\<rparr>"
  by (simp add: process_batch_def initial_collection_def example_lookup_first py_sleep_def
      sleep_error_examples dict_update_def Let_def)

lemma example_second_batch:
  "process_batch example_service_flaky [''spotify:track:abc'', ''x'', ''y''] ''out/features.json'' 2 1 2
       \<lparr>all_features = [(''spotify:track:abc'', Some example_feature_record), (''x'', None)],
        failed_tracks = [''x''], successful_batches = Suc 0,
        trace = [BatchCall [''spotify:track:abc'', ''x''], RemoteCall [''abc'', ''x''], Sleep 1]\<rparr> =
     \<lparr>all_features = [(''spotify:track:abc'', Some example_feature_record), (''x'', None)],
      failed_tracks = [''x'', ''y''], successful_batches = Suc 0,
      trace = [BatchCall [''spotify:track:abc'', ''x''], RemoteCall [''abc'', ''x''], Sleep 1,
               BatchCall [''y''], RemoteCall [''y''], Log LogError, Log LogWarning, Sleep 1]\<rparr>"
  by (simp add: process_batch_def example_lookup_second py_sleep_def sleep_error_examples Let_def)

lemma example_run:
  "collect_all_audio_features example_service_flaky [''spotify:track:abc'', ''x'', ''y'']
       ''out/features.json'' 2 1 =
     (\<lparr>all_features = [(''spotify:track:abc'', Some example_feature_record), (''x'', None)],
       failed_tracks = [''x'', ''y''], successful_batches = 1,
       trace = [BatchCall [''spotify:track:abc'', ''x''], RemoteCall [''abc'', ''x''], Sleep 1,
                BatchCall [''y''], RemoteCall [''y''], Log LogError, Log LogWarning, Sleep 1,
                SaveFeatures ''out/features.json''
                  [(''spotify:track:abc'', Some example_feature_record), (''x'', None)],
                LogCounts 3 1 2, Log LogInfo,
                SaveFailed ''out/features.json.failed'' [''x'', ''y'']]\<rparr>,
      Inr [(''spotify:track:abc'', Some example_feature_record), (''x'', None)])"
  by (simp add: collect_all_audio_features_def example_starts example_first_batch
      example_second_batch success_count_def save_features_to_file_def Let_def)

theorem batches_partition_input_witness:
  "length (issued_batches example_service_flaky [''spotify:track:abc'', ''x'', ''y'']
       ''out/features.json'' 2 1) = 2 \<and>
   issued_batches example_service_flaky [''spotify:track:abc'', ''x'', ''y'']
       ''out/features.json'' 2 1 ! 1 = [''y''] \<and>
   concat (issued_batches example_service_flaky [''spotify:track:abc'', ''x'', ''y'']
       ''out/features.json'' 2 1) = [''spotify:track:abc'', ''x'', ''y'']"
proof -
  have pos: "(0::int) < 2" by simp
  note t = batches_partition_input [OF pos, of example_service_flaky
      "[''spotify:track:abc'', ''x'', ''y'']" "''out/features.json''" 1]
  from t have len: "length (issued_batches example_service_flaky
      [''spotify:track:abc'', ''x'', ''y''] ''out/features.json'' 2 1) = 2"
    by simp
  from t len have "issued_batches example_service_flaky [''spotify:track:abc'', ''x'', ''y'']
       ''out/features.json'' 2 1 ! 1 =
       take (nat 2) (drop (1 * nat 2) [''spotify:track:abc'', ''x'', ''y''])"
    by simp
  with t len show ?thesis by simp
qed

theorem success_path_counts_unavailable_witness:
  "all_features (process_batch example_service_flaky [''spotify:track:abc'', ''x'', ''y'']
       ''out/features.json'' 2 1 0 initial_collection) =
     [(''spotify:track:abc'', Some example_feature_record), (''x'', None)] \<and>
   failed_tracks (process_batch example_service_flaky [''spotify:track:abc'', ''x'', ''y'']
       ''out/features.json'' 2 1 0 initial_collection) = [''x'']"
proof -
  have call: "snd (get_audio_features_batch (example_service_flaky (nat (0 div 2 + 1)))
      (take (nat 2) (drop (nat 0) [''spotify:track:abc'', ''x'', ''y'']))) =
      Inr [(''spotify:track:abc'', Some example_feature_record), (''x'', None)]"
    by (simp add: example_lookup_first)
  have ne: "[(''spotify:track:abc'', Some example_feature_record), (''x'', None :: int features option)] \<noteq> []"
    by simp
  show ?thesis
    using success_path_counts_unavailable [where sp=example_service_flaky and i=0
        and batch_size=2 and track_uris="[''spotify:track:abc'', ''x'', ''y'']"
        and output_file="''out/features.json''" and delay=1 and st=initial_collection,
        OF call ne]
    by (simp add: dict_update_def initial_collection_def sleep_error_examples)
qed


lemma example_standing:
  "map (standing_of (fst (collect_all_audio_features example_service_flaky
       [''spotify:track:abc'', ''x'', ''y''] ''out/features.json'' 2 1)))
     [''spotify:track:abc'', ''x'', ''y''] = [Some Populated, Some Unavailable, Some FailedOnly]"
  by (simp add: example_run standing_of_def)








subsection \<open>The end of a run\<close>

text \<open>
  C5 says that the run ends normally for every list, the empty one included. For the
  empty list the final save is made and the three counts are logged, then the success
  rate of line 219 divides by \<open>len(track_uris)\<close>: the run raises and returns nothing.
\<close>

theorem empty_run_raises:
  assumes "batch_size \<noteq> 0"
  shows "collect_all_audio_features sp [] output_file batch_size delay =
     (\<lparr>all_features = [], failed_tracks = [], successful_batches = 0,
       trace = save_features_to_file [] output_file @ [LogCounts 0 0 0]\<rparr>,
      Inl ZeroDivisionError)"
proof -
  have r: "py_range 0 0 batch_size = []" by (simp add: py_range_simps')
  show ?thesis
    using assms
    by (simp add: collect_all_audio_features_def r initial_collection_def success_count_def
        Let_def)
qed

theorem empty_run_raises_witness:
  "collect_all_audio_features example_service_flaky [] ''out/features.json'' 50 1 =
     (\<lparr>all_features = [], failed_tracks = [], successful_batches = 0,
       trace = [SaveFeatures ''out/features.json'' [], LogCounts 0 0 0]\<rparr>,
      Inl ZeroDivisionError)"
proof -
  have b: "(50::int) \<noteq> 0" by simp
  show ?thesis
    using empty_run_raises [OF b, of example_service_flaky "''out/features.json''" 1]
    by (simp add: save_features_to_file_def)
qed

text \<open>
  For a list that is not empty the run does end as C5 says: the final save, the counts,
  the failure list if there is one, and the feature map as the result.
\<close>

lemma save_without_directory:
  "save_features_to_file features ''features.json'' = [Log LogError]"
  by (simp add: save_features_to_file_def)

lemma nonempty_run_returns:
  assumes "track_uris \<noteq> []" and "batch_size \<noteq> 0"
  shows "\<exists>st. st = fold (process_batch sp track_uris output_file batch_size delay)
             (py_range 0 (int (length track_uris)) batch_size) initial_collection \<and>
           snd (collect_all_audio_features sp track_uris output_file batch_size delay) =
             Inr (all_features st) \<and>
           trace (fst (collect_all_audio_features sp track_uris output_file batch_size delay)) =
             trace st @ save_features_to_file (all_features st) output_file @
             [LogCounts (length track_uris) (success_count (all_features st))
                (length (failed_tracks st)),
              Log LogInfo] @
             (if failed_tracks st \<noteq> [] then
                [SaveFailed (output_file @ ''.failed'') (failed_tracks st)] else [])"
  using assms by (simp add: collect_all_audio_features_def Let_def)

section \<open>Properties of the pipeline driver\<close>

lemma credentials_Some_iff:
  "credentials client_id client_secret = Some (i, s) \<longleftrightarrow>
     client_id = Some i \<and> client_secret = Some s \<and> i \<noteq> [] \<and> s \<noteq> []"
  by (cases client_id; cases client_secret) auto

lemma credentials_None_iff:
  "credentials client_id client_secret = None \<longleftrightarrow>
     client_id = None \<or> client_id = Some [] \<or> client_secret = None \<or> client_secret = Some []"
  by (cases client_id; cases client_secret) auto

text \<open>
  C9: once extraction and persistence are done, the driver starts the enrichment stage
  only when both credentials are there; when either is absent it logs the skip and
  ends normally; when the construction of the client or the collection run raises, the
  exception is logged and the driver still ends normally.
\<close>

theorem enrichment_gated_on_credentials:
  assumes "extract_unique_tracks_from_mpd data_raw (Some 5) = Inr extracted"
    and "persist = None"
  shows "(EnrichmentStarted \<in> set (fst (main data_raw persist client_id client_secret connection run))
            \<longrightarrow> client_id \<noteq> None \<and> client_secret \<noteq> None) \<and>
         (client_id = None \<or> client_secret = None \<longrightarrow>
            main data_raw persist client_id client_secret connection run =
              ([Extracted, TracksSaved, SkipLogged, PipelineComplete], None)) \<and>
         (\<forall>i s. client_id = Some i \<and> client_secret = Some s \<and> i \<noteq> [] \<and> s \<noteq> [] \<longrightarrow>
            (\<forall>e. connection = Some e \<longrightarrow>
               main data_raw persist client_id client_secret connection run =
                 ([Extracted, TracksSaved, EnrichmentStarted, FailureLogged e, PipelineComplete],
                  None)) \<and>
            (\<forall>e. connection = None \<and> run (map fst (fst extracted)) = Some e \<longrightarrow>
               main data_raw persist client_id client_secret connection run =
                 ([Extracted, TracksSaved, EnrichmentStarted, CollectorConstructed,
                   FailureLogged e, PipelineComplete], None))) \<and>
         snd (main data_raw persist client_id client_secret connection run) = None"
proof -
  have a: "EnrichmentStarted \<in> set (fst (main data_raw persist client_id client_secret connection run))
      \<longrightarrow> client_id \<noteq> None \<and> client_secret \<noteq> None"
    using assms
    by (cases client_id; cases client_secret)
      (auto simp: main_def split: option.splits prod.splits)
  have b: "client_id = None \<or> client_secret = None \<longrightarrow>
      main data_raw persist client_id client_secret connection run =
        ([Extracted, TracksSaved, SkipLogged, PipelineComplete], None)"
    using assms by (cases client_id; cases client_secret) (auto simp: main_def)
  have c: "\<forall>i s. client_id = Some i \<and> client_secret = Some s \<and> i \<noteq> [] \<and> s \<noteq> [] \<longrightarrow>
      (\<forall>e. connection = Some e \<longrightarrow>
         main data_raw persist client_id client_secret connection run =
           ([Extracted, TracksSaved, EnrichmentStarted, FailureLogged e, PipelineComplete], None)) \<and>
      (\<forall>e. connection = None \<and> run (map fst (fst extracted)) = Some e \<longrightarrow>
         main data_raw persist client_id client_secret connection run =
           ([Extracted, TracksSaved, EnrichmentStarted, CollectorConstructed,
             FailureLogged e, PipelineComplete], None))"
    using assms by (auto simp: main_def init_collector_def)
  have d: "snd (main data_raw persist client_id client_secret connection run) = None"
    using assms by (auto simp: main_def split: option.splits prod.splits)
  from a b c d show ?thesis by blast
qed

theorem enrichment_gated_on_credentials_witness:
  "main example_dir None (Some ''id'') None None (\<lambda>uris. None) =
     ([Extracted, TracksSaved, SkipLogged, PipelineComplete], None) \<and>
   main example_dir None (Some ''id'') (Some ''secret'') (Some OSError) (\<lambda>uris. None) =
     ([Extracted, TracksSaved, EnrichmentStarted, FailureLogged OSError, PipelineComplete], None) \<and>
   main example_dir None (Some ''id'') (Some ''secret'') None (\<lambda>uris. Some ValueError) =
     ([Extracted, TracksSaved, EnrichmentStarted, CollectorConstructed, FailureLogged ValueError,
       PipelineComplete], None)"
proof -
  have ex: "extract_unique_tracks_from_mpd example_dir (Some 5) =
      Inr ([(JStr ''u1'', example_record ''u1'' ''A''), (JStr ''u2'', example_record ''u2'' ''B'')],
           [(JStr ''u1'', 2), (JStr ''u2'', 1)])"
    by (simp add: extract_defs example_defs)
  show ?thesis
    using enrichment_gated_on_credentials [OF ex refl, of "Some ''id''" None None "\<lambda>uris. None"]
      enrichment_gated_on_credentials [OF ex refl, of "Some ''id''" "Some ''secret''"
        "Some OSError" "\<lambda>uris. None"]
      enrichment_gated_on_credentials [OF ex refl, of "Some ''id''" "Some ''secret''"
        None "\<lambda>uris. Some ValueError"]
    by simp
qed

end
